theory Spec2Isabelle
  imports
    Complex_Main
    "HOL-Library.Word"
    "HOL-Library.Char_ord"
    "HOL-Library.List_Lexorder"
    "HOL-Library.Sublist"
    "HOL-Library.AList"
begin

section \<open>Python values used by both scripts\<close>

subsection \<open>Strings\<close>

text \<open>
  A Python \<open>str\<close> is modelled as a \<open>string\<close> whose characters are the code points
  0..255 (Latin-1).  The library predicates below follow CPython on that range:
  \<open>str.lower\<close> moves A..Z and U+00C0..U+00DE (except the multiplication sign U+00D7)
  up by 32; \<open>str.isdigit\<close> holds for 0..9 and the superscripts U+00B2, U+00B3, U+00B9;
  \<open>str.strip\<close> removes the characters for which \<open>str.isspace\<close> holds.
\<close>

definition lower_char :: "char \<Rightarrow> char" where
  "lower_char c =
     (let n = (of_char c :: nat)
      in if (65 \<le> n \<and> n \<le> 90) \<or> (192 \<le> n \<and> n \<le> 222 \<and> n \<noteq> 215)
         then char_of (n + 32) else c)"

definition lower :: "string \<Rightarrow> string" where
  "lower s = map lower_char s"

definition startswith :: "string \<Rightarrow> string \<Rightarrow> bool" where
  "startswith s p = prefix p s"

definition endswith :: "string \<Rightarrow> string \<Rightarrow> bool" where
  "endswith s p = suffix p s"

definition endswith_any :: "string \<Rightarrow> string list \<Rightarrow> bool" where
  \<comment> \<open>\<open>s.endswith((p1, p2, ...))\<close> with a tuple of suffixes\<close>
  "endswith_any s ps = list_ex (endswith s) ps"

definition isdigit :: "char \<Rightarrow> bool" where
  "isdigit c =
     (let n = (of_char c :: nat)
      in (48 \<le> n \<and> n \<le> 57) \<or> n = 178 \<or> n = 179 \<or> n = 185)"

definition isspace :: "char \<Rightarrow> bool" where
  "isspace c =
     (let n = (of_char c :: nat)
      in (9 \<le> n \<and> n \<le> 13) \<or> (28 \<le> n \<and> n \<le> 32) \<or> n = 133 \<or> n = 160)"

definition strip :: "string \<Rightarrow> string" where
  "strip s = rev (dropWhile isspace (rev (dropWhile isspace s)))"

subsection \<open>Floats\<close>

text \<open>
  A Python \<open>float\<close> is an IEEE-754 binary64 number.  Finite doubles are modelled by
  the rationals they denote, and every arithmetic operation of the source is the exact
  operation followed by \<open>fl\<close>, rounding to the nearest number with a 53-bit significand,
  ties to even.  Overflow and subnormal numbers are not modelled: the quotients and
  products of image dimensions and file sizes computed by the source stay far away from
  both.
\<close>

function expo_hi :: "rat \<Rightarrow> int" where
  "expo_hi x = (if 2 \<le> x then 1 + expo_hi (x / 2) else 0)"
  by pat_completeness auto
termination
proof (relation "measure (\<lambda>x. nat \<lfloor>x\<rfloor>)")
  show "wf (measure (\<lambda>x::rat. nat \<lfloor>x\<rfloor>))" by simp
next
  fix x :: rat
  assume h: "2 \<le> x"
  have "x / 2 \<le> x - 1" using h by simp
  then have "\<lfloor>x / 2\<rfloor> \<le> \<lfloor>x - 1\<rfloor>" by (rule floor_mono)
  moreover have "2 \<le> \<lfloor>x\<rfloor>" using h by (simp add: le_floor_iff)
  ultimately show "(x / 2, x) \<in> measure (\<lambda>x. nat \<lfloor>x\<rfloor>)" by simp
qed

function expo_lo :: "rat \<Rightarrow> int" where
  "expo_lo x = (if 0 < x \<and> x < 1 then expo_lo (2 * x) - 1 else 0)"
  by pat_completeness auto
termination
proof (relation "measure (\<lambda>x. nat \<lfloor>1 / x\<rfloor>)")
  show "wf (measure (\<lambda>x::rat. nat \<lfloor>1 / x\<rfloor>))" by simp
next
  fix x :: rat
  assume h: "0 < x \<and> x < 1"
  then have one: "1 < 1 / x" by simp
  then have "1 \<le> \<lfloor>1 / x\<rfloor>" by (simp add: le_floor_iff)
  moreover have "1 / (2 * x) \<le> 1 / x - 1 / 2" using one by simp
  then have "\<lfloor>1 / (2 * x)\<rfloor> \<le> \<lfloor>1 / x - 1 / 2\<rfloor>" by (rule floor_mono)
  moreover have "\<lfloor>1 / x - 1 / 2\<rfloor> \<le> \<lfloor>1 / x\<rfloor>" by (rule floor_mono) simp
  moreover have "\<lfloor>1 / (2 * x)\<rfloor> \<noteq> \<lfloor>1 / x\<rfloor>"
  proof
    assume e: "\<lfloor>1 / (2 * x)\<rfloor> = \<lfloor>1 / x\<rfloor>"
    have "1 / x < of_int \<lfloor>1 / x\<rfloor> + 1" by linarith
    moreover have "of_int \<lfloor>1 / (2 * x)\<rfloor> \<le> 1 / (2 * x)" by (rule of_int_floor_le)
    moreover have "1 / (2 * x) = (1 / x) / 2" by simp
    moreover have "(1::rat) \<le> of_int \<lfloor>1 / x\<rfloor>" using \<open>1 \<le> \<lfloor>1 / x\<rfloor>\<close> by simp
    ultimately show False using e by linarith
  qed
  ultimately show "(2 * x, x) \<in> measure (\<lambda>x. nat \<lfloor>1 / x\<rfloor>)" by simp
qed

declare expo_hi.simps [simp del] expo_lo.simps [simp del]

definition expo :: "rat \<Rightarrow> int" where
  \<comment> \<open>the binary exponent \<open>e\<close> of a positive \<open>x\<close>: \<open>2^e \<le> x < 2^(e+1)\<close>\<close>
  "expo x = (if 1 \<le> x then expo_hi x else expo_lo x)"

definition round_half_even :: "rat \<Rightarrow> int" where
  "round_half_even q =
     (let f = \<lfloor>q\<rfloor>; r = q - of_int f
      in if r < 1 / 2 then f
         else if 1 / 2 < r then f + 1
         else if even f then f else f + 1)"

definition fl :: "rat \<Rightarrow> rat" where
  "fl x =
     (if x = 0 then 0
      else let a = \<bar>x\<bar>; e = expo a;
               m = round_half_even (a * power_int 2 (52 - e))
           in sgn x * of_int m * power_int 2 (e - 52))"

definition py_int :: "rat \<Rightarrow> int" where
  \<comment> \<open>\<open>int(x)\<close> of a float: truncation towards zero\<close>
  "py_int x = (if 0 \<le> x then \<lfloor>x\<rfloor> else \<lceil>x\<rceil>)"

definition truediv :: "int \<Rightarrow> int \<Rightarrow> rat" where
  \<comment> \<open>\<open>a / b\<close> on two ints (the divisor is non-zero at every call): correctly rounded\<close>
  "truediv a b = fl (of_int a / of_int b)"

definition fmul :: "rat \<Rightarrow> rat \<Rightarrow> rat" where
  "fmul x y = fl (x * y)"

definition fsub :: "rat \<Rightarrow> rat \<Rightarrow> rat" where
  "fsub x y = fl (x - y)"

definition format_2f :: "rat \<Rightarrow> int" where
  \<comment> \<open>\<open>f"{x:.2f}"\<close>: the decimal with two places nearest to \<open>x\<close>, given as its number
      of hundredths (66.67 is 6667)\<close>
  "format_2f x = round_half_even (x * 100)"

section \<open>The Preprocessor\<close>

text \<open>
  Exceptions of both scripts.  An uncaught exception ends the run; it is the \<open>Inl\<close>
  result of the function that models the run.
\<close>

datatype error =
    ValueError string
  | FileNotFoundError string
  | Cv2Error
  | NameError string
  | TypeError
  | AttributeError
  | KeyError
  | IndexError
  | JSONDecodeError
  | RecursionError
  | RequestException

subsection \<open>Images and the OpenCV calls\<close>

text \<open>
  A numpy image array: its shape and its pixels in row-major order.  A colour pixel is
  a (blue, green, red) triple of bytes, a grayscale pixel one byte.
\<close>

record 'p image =
  rows :: nat
  cols :: nat
  pixels :: "'p list"

type_synonym bgr = "8 word \<times> 8 word \<times> 8 word"

text \<open>
  What the script takes from OpenCV without fixing it: the decoder (\<open>None\<close> for a file
  that cannot be decoded), the area-averaging resampling filter, the colour-to-gray
  conversion of one pixel, and the JPEG encoder at quality 90 (success flag and length
  of the buffer).
\<close>

record cv2_lib =
  imread :: "string \<Rightarrow> bgr image option"
  inter_area :: "bgr image \<Rightarrow> nat \<Rightarrow> nat \<Rightarrow> bgr list"
  bgr2gray :: "bgr \<Rightarrow> 8 word"
  imencode :: "8 word image \<Rightarrow> bool \<times> nat"

definition cv2_resize :: "cv2_lib \<Rightarrow> bgr image \<Rightarrow> int \<times> int \<Rightarrow> error + bgr image" where
  \<comment> \<open>\<open>cv2.resize(image, dsize, interpolation=cv2.INTER_AREA)\<close>: the result has width
      \<open>dsize[0]\<close> and height \<open>dsize[1]\<close>; an empty size is rejected\<close>
  "cv2_resize lib img dsize =
     (case dsize of (nw, nh) \<Rightarrow>
        if nw \<le> 0 \<or> nh \<le> 0 then Inl Cv2Error
        else Inr \<lparr>rows = nat nh, cols = nat nw,
                  pixels = inter_area lib img (nat nw) (nat nh)\<rparr>)"

definition cvtColor :: "cv2_lib \<Rightarrow> bgr image \<Rightarrow> error + 8 word image" where
  \<comment> \<open>\<open>cv2.cvtColor(resized, cv2.COLOR_BGR2GRAY)\<close>: same shape, one byte per pixel\<close>
  "cvtColor lib img =
     (if pixels img = [] then Inl Cv2Error
      else Inr \<lparr>rows = rows img, cols = cols img,
                pixels = map (bgr2gray lib) (pixels img)\<rparr>)"

definition cv2_threshold_binary :: "8 word image \<Rightarrow> int \<Rightarrow> 8 word \<Rightarrow> 8 word image" where
  \<comment> \<open>\<open>cv2.threshold(src, thresh, maxval, cv2.THRESH_BINARY)\<close>: OpenCV defines
      \<open>dst = maxval if src > thresh else 0\<close>\<close>
  "cv2_threshold_binary src thresh maxval =
     src\<lparr>pixels := map (\<lambda>p. if thresh < uint p then maxval else 0) (pixels src)\<rparr>"

definition np_mean :: "8 word image \<Rightarrow> rat" where
  \<comment> \<open>\<open>gray.mean()\<close>: numpy sums the bytes in a float (exact below \<open>2^53\<close>) and divides
      by the number of elements\<close>
  "np_mean gray =
     fl (of_nat (sum_list (map unat (pixels gray))) / of_nat (length (pixels gray)))"

subsection \<open>resize_image and preprocess_image\<close>

definition resize_image :: "cv2_lib \<Rightarrow> bgr image \<Rightarrow> int \<Rightarrow> error + bgr image" where
  "resize_image lib img max_width =
     (let h = int (rows img); w = int (cols img)
      in if max_width < w then
           let ratio = truediv max_width w;
               new_size = (py_int (fmul (of_int w) ratio), py_int (fmul (of_int h) ratio))
           in cv2_resize lib img new_size
         else Inr img)"

definition threshold_val :: "8 word image \<Rightarrow> int \<Rightarrow> int" where
  "threshold_val gray offset =
     (let mean_val = py_int (np_mean gray)
      in max 0 (min 255 (mean_val - offset)))"

definition binarize :: "8 word image \<Rightarrow> int \<Rightarrow> 8 word image" where
  \<comment> \<open>steps 4 and 5 of \<open>preprocess_image\<close>\<close>
  "binarize gray offset = cv2_threshold_binary gray (threshold_val gray offset) 255"

definition preprocess_image :: "cv2_lib \<Rightarrow> string \<Rightarrow> int \<Rightarrow> error + (8 word image \<times> int)" where
  \<comment> \<open>returns \<open>(bin_image, final_size_bytes)\<close>; the wall-clock \<open>local_time\<close> is left out\<close>
  "preprocess_image lib image_path offset =
     (case imread lib image_path of
        None \<Rightarrow> Inl (ValueError (''Could not read image: '' @ image_path))
      | Some img \<Rightarrow>
          (case resize_image lib img 4000 of
             Inl e \<Rightarrow> Inl e
           | Inr resized \<Rightarrow>
               (case cvtColor lib resized of
                  Inl e \<Rightarrow> Inl e
                | Inr gray \<Rightarrow>
                    let bin_image = binarize gray offset;
                        (success, len_buffer) = imencode lib bin_image;
                        final_size_bytes = (if success then int len_buffer else 0)
                    in Inr (bin_image, final_size_bytes))))"

subsection \<open>main\<close>

definition path_join :: "string \<Rightarrow> string \<Rightarrow> string" where
  \<comment> \<open>\<open>os.path.join(folder, name)\<close> for a directory entry \<open>name\<close>\<close>
  "path_join folder name = folder @ ''/'' @ name"

definition is_image_name :: "string \<Rightarrow> bool" where
  \<comment> \<open>\<open>f.lower().endswith(("png", "jpg", "jpeg"))\<close>\<close>
  "is_image_name f = endswith_any (lower f) [''png'', ''jpg'', ''jpeg'']"

definition all_images :: "string list \<Rightarrow> string list" where
  \<comment> \<open>the comprehension over \<open>os.listdir(images_folder)\<close>, then \<open>all_images.sort()\<close>\<close>
  "all_images listing = sort (filter is_image_name listing)"

definition offset_for :: "string \<Rightarrow> int" where
  "offset_for image_file =
     (let filename_lower = lower image_file
      in if startswith filename_lower ''license'' then 20
         else if startswith filename_lower ''passport'' then 30
         else 0)"

text \<open>
  The state of the loop of \<open>main\<close>: the three counters, and the paths handed to
  \<open>os.path.getsize\<close> and \<open>cv2.imread\<close> so far, in order.
\<close>

record totals =
  combined_original_size :: int
  combined_final_size :: int
  total_images_processed :: int
  paths_read :: "string list"

definition totals_init :: totals where
  "totals_init = \<lparr>combined_original_size = 0, combined_final_size = 0,
                  total_images_processed = 0, paths_read = []\<rparr>"

fun main_loop :: "cv2_lib \<Rightarrow> (string \<Rightarrow> nat) \<Rightarrow> string list \<Rightarrow> totals \<Rightarrow> totals \<times> error option" where
  "main_loop lib getsize [] t = (t, None)"
| "main_loop lib getsize (image_file # rest) t =
     (let image_path = path_join ''images'' image_file;
          original_size = int (getsize image_path);
          t1 = t\<lparr>paths_read := paths_read t @ [image_path]\<rparr>
      in case preprocess_image lib image_path (offset_for image_file) of
           Inl e \<Rightarrow> (t1, Some e)
         | Inr (processed_image, final_size_bytes) \<Rightarrow>
             main_loop lib getsize rest
               (t1\<lparr>combined_original_size := combined_original_size t1 + original_size,
                   combined_final_size := combined_final_size t1 + final_size_bytes,
                   total_images_processed := total_images_processed t1 + 1\<rparr>))"

definition size_reduced :: "totals \<Rightarrow> int" where
  "size_reduced t = combined_original_size t - combined_final_size t"

definition size_reduced_pct :: "totals \<Rightarrow> rat" where
  "size_reduced_pct t =
     (if 0 < combined_original_size t
      then fmul 100 (fsub 1 (truediv (combined_final_size t) (combined_original_size t)))
      else 0)"

definition main :: "cv2_lib \<Rightarrow> (string \<Rightarrow> nat) \<Rightarrow> string list \<Rightarrow> totals \<times> error option" where
  \<comment> \<open>the counters at the end of the run (the summary is computed from them) and the
      exception that ended it, if any; the writes to the results file and the saved
      images are not modelled\<close>
  "main lib getsize listing =
     (if all_images listing = []
      then (totals_init, Some (FileNotFoundError ''No images found in the 'images' folder.''))
      else main_loop lib getsize (all_images listing) totals_init)"

section \<open>The Extractor\<close>

subsection \<open>JSON values and Python's operations on them\<close>

text \<open>
  What \<open>json.loads\<close> and \<open>response.json()\<close> return.  A \<open>dict\<close> is an association list
  in insertion order; lookups take the first entry of a key (the parser yields each key
  once).
\<close>

datatype json =
    JNull
  | JBool bool
  | JInt int
  | JFloat rat
  | JStr string
  | JArr "json list"
  | JObj "(string \<times> json) list"

fun truthy :: "json \<Rightarrow> bool" where
  "truthy JNull = False"
| "truthy (JBool b) = b"
| "truthy (JInt i) = (i \<noteq> 0)"
| "truthy (JFloat r) = (r \<noteq> 0)"
| "truthy (JStr s) = (s \<noteq> [])"
| "truthy (JArr xs) = (xs \<noteq> [])"
| "truthy (JObj d) = (d \<noteq> [])"

fun contains_key :: "string \<Rightarrow> json \<Rightarrow> error + bool" where
  \<comment> \<open>\<open>key in v\<close> for a string \<open>key\<close>\<close>
  "contains_key k (JObj d) = Inr (map_of d k \<noteq> None)"
| "contains_key k (JArr xs) = Inr (JStr k \<in> set xs)"
| "contains_key k (JStr s) = Inr (sublist k s)"
| "contains_key k v = Inl TypeError"

fun subscript_key :: "json \<Rightarrow> string \<Rightarrow> error + json" where
  \<comment> \<open>\<open>v[key]\<close> for a string \<open>key\<close>\<close>
  "subscript_key (JObj d) k = (case map_of d k of None \<Rightarrow> Inl KeyError | Some x \<Rightarrow> Inr x)"
| "subscript_key v k = Inl TypeError"

fun subscript_0 :: "json \<Rightarrow> error + json" where
  \<comment> \<open>\<open>v[0]\<close>\<close>
  "subscript_0 (JArr xs) = (case xs of [] \<Rightarrow> Inl IndexError | x # _ \<Rightarrow> Inr x)"
| "subscript_0 (JStr s) = (case s of [] \<Rightarrow> Inl IndexError | c # _ \<Rightarrow> Inr (JStr [c]))"
| "subscript_0 (JObj d) = Inl KeyError"
| "subscript_0 v = Inl TypeError"

fun dict_get :: "json \<Rightarrow> string \<Rightarrow> json \<Rightarrow> error + json" where
  \<comment> \<open>\<open>v.get(key, default)\<close>: only a dict has the method\<close>
  "dict_get (JObj d) k dflt = Inr (case map_of d k of None \<Rightarrow> dflt | Some x \<Rightarrow> x)"
| "dict_get v k dflt = Inl AttributeError"

fun set_item :: "json \<Rightarrow> string \<Rightarrow> json \<Rightarrow> error + json" where
  \<comment> \<open>\<open>v[key] = x\<close>: an existing key keeps its place, a new one goes to the end\<close>
  "set_item (JObj d) k x = Inr (JObj (AList.update k x d))"
| "set_item v k x = Inl TypeError"

fun iterate :: "json \<Rightarrow> error + json list" where
  \<comment> \<open>the elements a \<open>for\<close> loop over \<open>v\<close> visits: the items of a list, the keys of a
      dict, the characters of a string\<close>
  "iterate (JArr xs) = Inr xs"
| "iterate (JObj d) = Inr (map (\<lambda>kv. JStr (fst kv)) d)"
| "iterate (JStr s) = Inr (map (\<lambda>c. JStr [c]) s)"
| "iterate v = Inl TypeError"

definition str_isdigit :: "string \<Rightarrow> bool" where
  \<comment> \<open>\<open>s.isdigit()\<close>: non-empty and every character a digit\<close>
  "str_isdigit s = (s \<noteq> [] \<and> list_all isdigit s)"

subsection \<open>Lines, fences\<close>

definition is_linebreak :: "char \<Rightarrow> bool" where
  "is_linebreak c =
     (let n = (of_char c :: nat)
      in (10 \<le> n \<and> n \<le> 13) \<or> (28 \<le> n \<and> n \<le> 30) \<or> n = 133)"

fun splitlines_from :: "string \<Rightarrow> string \<Rightarrow> string list" where
  \<comment> \<open>\<open>str.splitlines()\<close>, with the line read so far; CR LF is one line break, and a
      line break at the very end opens no further line\<close>
  "splitlines_from cur [] = (if cur = [] then [] else [cur])"
| "splitlines_from cur [c] = (if is_linebreak c then [cur] else [cur @ [c]])"
| "splitlines_from cur (c # d # cs) =
     (if of_char c = (13::nat) \<and> of_char d = (10::nat) then cur # splitlines_from [] cs
      else if is_linebreak c then cur # splitlines_from [] (d # cs)
      else splitlines_from (cur @ [c]) (d # cs))"

definition splitlines :: "string \<Rightarrow> string list" where
  "splitlines s = splitlines_from [] s"

fun join :: "string \<Rightarrow> string list \<Rightarrow> string" where
  \<comment> \<open>\<open>sep.join(xs)\<close>\<close>
  "join sep [] = []"
| "join sep [x] = x"
| "join sep (x # y # ys) = x @ sep @ join sep (y # ys)"

definition strip_fences :: "string \<Rightarrow> string" where
  \<comment> \<open>from the model's reply \<open>content\<close> to the \<open>content_str\<close> handed to \<open>json.loads\<close>\<close>
  "strip_fences content =
     (let content_str = strip content
      in if startswith content_str ''```'' \<and> endswith content_str ''```''
         then let lines = splitlines content_str;
                  lines1 = butlast (tl lines)
              in strip (join ''\<newline>'' lines1)
         else content_str)"

subsection \<open>The request\<close>

datatype block = TextBlock string | ImageUrlBlock string

record message =
  msg_role :: string
  msg_content :: "block list"

record payload =
  model :: "string option"
  max_tokens :: int
  top_p :: int
  top_k :: int
  presence_penalty :: int
  frequency_penalty :: int
  temperature :: int
  messages :: "message list"

record response =
  status_code :: int
  body_text :: string
  json_body :: "error + json"  \<comment> \<open>\<open>response.json()\<close>: its value, or the exception it raises\<close>

definition instructions_text :: string where
  \<open>instructions_text =
     ''We have multiple ID images. For each image, extract all text in an organized way. I don't need a physical description of the person. I only want these printed text fields:\<newline>'' @
     ''\<newline>'' @
     ''First name, Last name, Date of birth (DOB), Address, State, Country, Drivers license (DL) number or passport number, Sex, Height (HGT), Weight (WGT), Hair, Eyes, Issue date (ISS), Expiration date (EXP).\<newline>'' @
     ''\<newline>'' @
     ''For any missing fields, respond with 'N/A'. Please return the final result in JSON, as an array of objects. Each object should correspond to a single image and have the structure:\<newline>'' @
     ''\<newline>'' @
     ''  {\<newline>'' @
     ''    "filename": <string>,\<newline>'' @
     ''    "id_type": <string>,\<newline>'' @
     ''    "id_number": <string>,\<newline>'' @
     ''    "first_name": <string>,\<newline>'' @
     ''    "last_name": <string>,\<newline>'' @
     ''    "dob": <string>,\<newline>'' @
     ''    "place of birth": <string>,\<newline>'' @
     ''    "address": <string>,\<newline>'' @
     ''    "state": <string>,\<newline>'' @
     ''    "country": <string>,\<newline>'' @
     ''    "class": <string>,\<newline>'' @
     ''    "sex": <string>,\<newline>'' @
     ''    "hgt": <string>,\<newline>'' @
     ''    "wgt": <string>,\<newline>'' @
     ''    "hair": <string>,\<newline>'' @
     ''    "eyes": <string>,\<newline>'' @
     ''    "issue_date_iss": <string>,\<newline>'' @
     ''    "expiration_date_exp": <string>\<newline>'' @
     ''  }\<newline>'' @
     ''Use snake_case for the JSON keys, as shown above.''\<close>

definition image_files :: "string list \<Rightarrow> string list" where
  \<comment> \<open>the comprehension over \<open>os.listdir(images_folder)\<close>; the list is not sorted\<close>
  "image_files listing = filter is_image_name listing"

definition id_type_for :: "string \<Rightarrow> string" where
  "id_type_for image_file =
     (if startswith (lower image_file) ''license'' then ''drivers_license''
      else if startswith (lower image_file) ''passport'' then ''passport''
      else ''N/A'')"

definition image_block :: "(string \<Rightarrow> string) \<Rightarrow> string \<Rightarrow> block" where
  \<comment> \<open>\<open>read_b64 path\<close> is the base64 text of the bytes of the file at \<open>path\<close>\<close>
  "image_block read_b64 image_file =
     ImageUrlBlock (''data:image/jpeg;base64,'' @
                    read_b64 (path_join ''preprocessed_images'' image_file))"

definition caption_block :: "string \<Rightarrow> block" where
  "caption_block image_file =
     TextBlock (''This image is named '' @ image_file @
                ''. The ID type for this image is '' @ id_type_for image_file @ ''. '' @
                ''Extract the text and include the correct 'id_type' in the JSON output.'')"

fun add_images :: "(string \<Rightarrow> string) \<Rightarrow> string list \<Rightarrow> block list \<Rightarrow> block list" where
  \<comment> \<open>the loop over \<open>image_files\<close>, appending to \<open>batch_content\<close>\<close>
  "add_images read_b64 [] batch_content = batch_content"
| "add_images read_b64 (image_file # rest) batch_content =
     add_images read_b64 rest
       (batch_content @ [image_block read_b64 image_file] @ [caption_block image_file])"

definition batch_content :: "(string \<Rightarrow> string) \<Rightarrow> string list \<Rightarrow> block list" where
  "batch_content read_b64 listing =
     add_images read_b64 (image_files listing) [TextBlock instructions_text]"

definition build_payload :: "string option \<Rightarrow> block list \<Rightarrow> payload" where
  "build_payload fireworks_model blocks =
     \<lparr>model = fireworks_model, max_tokens = 4096, top_p = 1, top_k = 100,
      presence_penalty = 0, frequency_penalty = 0, temperature = 0,
      messages = [\<lparr>msg_role = ''user'', msg_content = blocks\<rparr>]\<rparr>"

definition build_headers :: "string \<Rightarrow> (string \<times> string) list" where
  "build_headers fireworks_api_key =
     [(''Accept'', ''application/json''),
      (''Content-Type'', ''application/json''),
      (''Authorization'', ''Bearer '' @ fireworks_api_key)]"

subsection \<open>Output\<close>

text \<open>
  One \<open>results.write(...)\<close> or \<open>print(...)\<close> call is one line: the pieces of its
  f-string in order.  Interpolated values stay values: \<open>Dumps v\<close> is
  \<open>json.dumps(v, indent=4)\<close>, \<open>Str v\<close> is \<open>str(v)\<close>, \<open>Num n\<close> an int, \<open>Fix2 x\<close> a float
  under \<open>:.2f\<close>, \<open>Env v\<close> the value of an environment variable.
\<close>

datatype piece =
    Lit string
  | Dumps json
  | Str json
  | Num int
  | Fix2 rat
  | Env "string option"

type_synonym line = "piece list"

record io =
  results_file :: "line list"
  console :: "line list"

definition write_results :: "line \<Rightarrow> io \<Rightarrow> io" where
  "write_results l s = s\<lparr>results_file := results_file s @ [l]\<rparr>"

definition print_line :: "line \<Rightarrow> io \<Rightarrow> io" where
  "print_line l s = s\<lparr>console := console s @ [l]\<rparr>"

subsection \<open>Post-processing the parsed records\<close>

fun keep_digits :: "json list \<Rightarrow> error + string" where
  \<comment> \<open>\<open>"".join(ch for ch in ... if ch.isdigit())\<close> over the elements visited\<close>
  "keep_digits [] = Inr []"
| "keep_digits (JStr ch # rest) =
     (case keep_digits rest of
        Inl e \<Rightarrow> Inl e
      | Inr r \<Rightarrow> Inr ((if str_isdigit ch then ch else []) @ r))"
| "keep_digits (v # rest) = Inl AttributeError"

definition digits_only :: "json \<Rightarrow> error + string" where
  "digits_only original_id =
     (case iterate original_id of Inl e \<Rightarrow> Inl e | Inr chs \<Rightarrow> keep_digits chs)"

definition fix_item :: "json \<Rightarrow> error + json" where
  \<comment> \<open>the body of the loop over \<open>extracted_batch\<close> up to the write\<close>
  "fix_item item =
     (case dict_get item ''id_type'' JNull of
        Inl e \<Rightarrow> Inl e
      | Inr id_type \<Rightarrow>
          if id_type = JStr ''passport'' then
            (case dict_get item ''id_number'' (JStr []) of
               Inl e \<Rightarrow> Inl e
             | Inr original_id \<Rightarrow>
                 (case digits_only original_id of
                    Inl e \<Rightarrow> Inl e
                  | Inr digits \<Rightarrow> set_item item ''id_number'' (JStr (take 9 digits))))
          else Inr item)"

fun write_items :: "json list \<Rightarrow> io \<Rightarrow> io \<times> (error + json list)" where
  \<comment> \<open>the loop: every record is written as soon as it is fixed; the result holds the
      records as they are after the loop\<close>
  "write_items [] s = (s, Inr [])"
| "write_items (item # rest) s =
     (case fix_item item of
        Inl e \<Rightarrow> (s, Inl e)
      | Inr item1 \<Rightarrow>
          (case write_items rest
                  (write_results [Dumps item1, Lit ''\<newline>\<newline>''] s) of
             (s1, Inl e) \<Rightarrow> (s1, Inl e)
           | (s1, Inr items) \<Rightarrow> (s1, Inr (item1 # items))))"

definition emit_batch :: "json \<Rightarrow> io \<Rightarrow> io \<times> error option" where
  \<comment> \<open>the \<open>try\<close> body after a successful \<open>json.loads\<close>\<close>
  "emit_batch extracted_batch s =
     (case iterate extracted_batch of
        Inl e \<Rightarrow> (s, Some e)
      | Inr items \<Rightarrow>
          (case write_items items s of
             (s1, Inl e) \<Rightarrow> (s1, Some e)
           | (s1, Inr items1) \<Rightarrow>
               let after = (case extracted_batch of JArr _ \<Rightarrow> JArr items1 | v \<Rightarrow> v);
                   s2 = print_line [Lit ''\<newline>Extracted text saved to:'', Lit '' '',
                                    Lit ''results/text_extracted_results.txt''] s1;
                   s3 = print_line [Lit ''\<newline>Parsed JSON:\<newline>'', Lit '' '',
                                    Dumps after] s2
               in (s3, None)))"

definition parse_content :: "(string \<Rightarrow> error + json) \<Rightarrow> json \<Rightarrow> io \<Rightarrow> io \<times> error option" where
  \<comment> \<open>from \<open>content.strip()\<close> to the end of the inner \<open>try\<close>; \<open>loads\<close> is \<open>json.loads\<close>, its
      value or the exception it raises; \<open>except json.JSONDecodeError\<close> catches that one
      exception, any other (RecursionError, ValueError) leaves the block\<close>
  "parse_content loads content s =
     (case content of
        JStr c \<Rightarrow>
          (case loads (strip_fences c) of
             Inr extracted_batch \<Rightarrow> emit_batch extracted_batch s
           | Inl JSONDecodeError \<Rightarrow>
               (print_line
                  [Lit ''The assistant response was not valid JSON even after removing code fences.'']
                  (write_results [Lit ''The assistant response was not valid JSON.\<newline>''] s),
                None)
           | Inl e \<Rightarrow> (s, Some e))
      | _ \<Rightarrow> (s, Some AttributeError))"

definition message_content :: "json \<Rightarrow> error + json" where
  \<comment> \<open>\<open>response_json["choices"][0]["message"]["content"]\<close>\<close>
  "message_content response_json =
     (case subscript_key response_json ''choices'' of
        Inl e \<Rightarrow> Inl e
      | Inr choices \<Rightarrow>
          (case subscript_0 choices of
             Inl e \<Rightarrow> Inl e
           | Inr choice \<Rightarrow>
               (case subscript_key choice ''message'' of
                  Inl e \<Rightarrow> Inl e
                | Inr msg \<Rightarrow> subscript_key msg ''content'')))"

definition no_valid_content :: "json \<Rightarrow> error + bool" where
  \<comment> \<open>\<open>"choices" not in response_json or not response_json["choices"]\<close>\<close>
  "no_valid_content response_json =
     (case contains_key ''choices'' response_json of
        Inl e \<Rightarrow> Inl e
      | Inr has \<Rightarrow>
          if \<not> has then Inr True
          else (case subscript_key response_json ''choices'' of
                  Inl e \<Rightarrow> Inl e
                | Inr choices \<Rightarrow> Inr (\<not> truthy choices)))"

definition handle_choices :: "(string \<Rightarrow> error + json) \<Rightarrow> json \<Rightarrow> io \<Rightarrow> io \<times> error option" where
  "handle_choices loads response_json s =
     (case no_valid_content response_json of
        Inl e \<Rightarrow> (s, Some e)
      | Inr True \<Rightarrow> (print_line [Lit ''No valid content found in the response.''] s, None)
      | Inr False \<Rightarrow>
          (case message_content response_json of
             Inl e \<Rightarrow> (s, Some e)
           | Inr content \<Rightarrow> parse_content loads content s))"

subsection \<open>Usage counters and statistics\<close>

type_synonym usage = "json \<times> json \<times> json"

definition usage_of :: "json \<Rightarrow> error + usage" where
  "usage_of response_json =
     (case dict_get response_json ''usage'' (JObj []) of
        Inl e \<Rightarrow> Inl e
      | Inr usage_info \<Rightarrow>
          (case dict_get usage_info ''prompt_tokens'' (JInt 0) of
             Inl e \<Rightarrow> Inl e
           | Inr prompt_tokens \<Rightarrow>
               (case dict_get usage_info ''completion_tokens'' (JInt 0) of
                  Inl e \<Rightarrow> Inl e
                | Inr completion_tokens \<Rightarrow>
                    (case dict_get usage_info ''total_tokens'' (JInt 0) of
                       Inl e \<Rightarrow> Inl e
                     | Inr total_tokens \<Rightarrow>
                         Inr (prompt_tokens, completion_tokens, total_tokens)))))"

definition performance_lines :: "nat \<Rightarrow> rat \<Rightarrow> line list" where
  \<comment> \<open>\<open>total_api_calls\<close> is 1; \<open>average_ms_per_image = duration_ms / len(image_files)\<close>\<close>
  "performance_lines n duration_ms =
     [[Lit ''Number of images processed: '', Num (int n), Lit ''\<newline>''],
      [Lit ''Total number of API calls: '', Num 1, Lit ''\<newline>''],
      [Lit ''Total time for request: '', Fix2 duration_ms, Lit '' ms\<newline>''],
      [Lit ''Average time per image: '', Fix2 (fl (duration_ms / of_nat n)),
       Lit '' ms\<newline>'']]"

definition token_lines :: "usage \<Rightarrow> line list" where
  "token_lines u =
     (case u of (prompt_tokens, completion_tokens, total_tokens) \<Rightarrow>
        [[Lit ''  Prompt tokens: '', Str prompt_tokens, Lit ''\<newline>''],
         [Lit ''  Completion tokens: '', Str completion_tokens, Lit ''\<newline>''],
         [Lit ''  Total tokens used: '', Str total_tokens, Lit ''\<newline>'']])"

definition write_statistics :: "nat \<Rightarrow> rat \<Rightarrow> usage \<Rightarrow> io \<Rightarrow> io" where
  "write_statistics n duration_ms u s =
     s\<lparr>results_file := results_file s
          @ [[Lit ''\<newline>--- Performance & Design Statistics ---\<newline>'']]
          @ performance_lines n duration_ms
          @ [[Lit ''\<newline>--- Usage / Token Statistics ---\<newline>'']]
          @ token_lines u\<rparr>"

definition zero_usage :: usage where
  "zero_usage = (JInt 0, JInt 0, JInt 0)"

subsection \<open>The response and the whole run\<close>

definition handle_response ::
  "(string \<Rightarrow> error + json) \<Rightarrow> nat \<Rightarrow> rat \<Rightarrow> response \<Rightarrow> io \<Rightarrow> io \<times> (error + usage)" where
  \<comment> \<open>the \<open>with open(results_file, "w")\<close> block; \<open>Inr\<close> carries the three counters as
      they are bound when the block is left; the outer \<open>except json.JSONDecodeError\<close>
      catches that exception of \<open>response.json()\<close> only\<close>
  "handle_response loads n duration_ms resp s =
     (if status_code resp = 200 then
        (case json_body resp of
           Inl JSONDecodeError \<Rightarrow>
             (print_line [Lit ''Error: Unable to parse response as JSON.'']
                (write_results [Lit ''Error: Unable to parse response as JSON.\<newline>''] s),
              Inr zero_usage)
         | Inl e \<Rightarrow> (s, Inl e)
         | Inr response_json \<Rightarrow>
             (case handle_choices loads response_json s of
                (s1, Some e) \<Rightarrow> (s1, Inl e)
              | (s1, None) \<Rightarrow>
                  (case usage_of response_json of
                     Inl e \<Rightarrow> (s1, Inl e)
                   | Inr u \<Rightarrow> (write_statistics n duration_ms u s1, Inr u))))
      else
        (print_line [Lit ''Error '', Num (status_code resp), Lit '': '', Lit (body_text resp)] s,
         Inl (NameError ''error_msg'')))"

definition print_statistics :: "nat \<Rightarrow> rat \<Rightarrow> usage \<Rightarrow> io \<Rightarrow> io" where
  \<comment> \<open>the prints after the \<open>with\<close> block\<close>
  "print_statistics n duration_ms u s =
     (case u of (prompt_tokens, completion_tokens, total_tokens) \<Rightarrow>
        s\<lparr>console := console s
             @ [[Lit ''\<newline>--- Performance & Design Statistics ---'']]
             @ [[Lit ''Number of images processed: '', Num (int n)],
                [Lit ''Total number of API calls: '', Num 1],
                [Lit ''Total time for request: '', Fix2 duration_ms, Lit '' ms''],
                [Lit ''Average time per image: '', Fix2 (fl (duration_ms / of_nat n)),
                 Lit '' ms\<newline>'']]
             @ [[Lit ''Usage / Token Statistics:'']]
             @ [[Lit ''  Prompt tokens: '', Str prompt_tokens],
                [Lit ''  Completion tokens: '', Str completion_tokens],
                [Lit ''  Total tokens used: '', Str total_tokens, Lit ''\<newline>'']]\<rparr>)"

text \<open>
  Everything the script takes from outside: the three environment variables, the listing
  of \<open>preprocessed_images\<close>, the files' contents in base64, the endpoint (an exception
  of \<open>requests.post\<close> is an \<open>Inl\<close>), \<open>json.loads\<close> (its value or the exception it
  raises), and the measured duration of the request in milliseconds.
\<close>

record world =
  fireworks_api_key :: "string option"
  fireworks_endpoint :: "string option"
  fireworks_model :: "string option"
  env_listing :: "string list"
  env_read_b64 :: "string \<Rightarrow> string"
  env_post :: "string \<Rightarrow> (string \<times> string) list \<Rightarrow> payload \<Rightarrow> error + response"
  env_loads :: "string \<Rightarrow> error + json"
  env_duration_ms :: rat

definition io_init :: io where
  "io_init = \<lparr>results_file = [], console = []\<rparr>"

definition extractor :: "world \<Rightarrow> io \<times> (error + usage)" where
  "extractor w =
     (let s0 = print_line [Lit ''Loaded Model: '', Env (fireworks_model w)]
                 (print_line [Lit ''Loaded Endpoint: '', Env (fireworks_endpoint w)] io_init)
      in case (fireworks_api_key w, fireworks_endpoint w) of
           (Some key, Some url) \<Rightarrow>
             if key = [] \<or> url = []
             then (s0, Inl (ValueError ''Missing Fireworks API credentials in environment variables.''))
             else if image_files (env_listing w) = []
             then (s0, Inl (FileNotFoundError ''No images found in the 'preprocessed_images' folder.''))
             else
               (case env_post w url (build_headers key)
                       (build_payload (fireworks_model w)
                          (batch_content (env_read_b64 w) (env_listing w))) of
                  Inl e \<Rightarrow> (s0, Inl e)
                | Inr resp \<Rightarrow>
                    (case handle_response (env_loads w) (length (image_files (env_listing w)))
                            (env_duration_ms w) resp s0 of
                       (s1, Inl e) \<Rightarrow> (s1, Inl e)
                     | (s1, Inr u) \<Rightarrow>
                         (print_statistics (length (image_files (env_listing w)))
                            (env_duration_ms w) u s1, Inr u)))
         | _ \<Rightarrow> (s0, Inl (ValueError ''Missing Fireworks API credentials in environment variables.'')))"

section \<open>The specification's vocabulary\<close>

text \<open>
  The operations the specification names, written from its words; the theorems below
  compare them with the functions of the scripts.
\<close>

definition clamp :: "int \<Rightarrow> int \<Rightarrow> int \<Rightarrow> int" where
  "clamp x lo hi = (if x < lo then lo else if hi < x then hi else x)"

definition truncate :: "rat \<Rightarrow> int" where
  "truncate x = (if x < 0 then - \<lfloor>- x\<rfloor> else \<lfloor>x\<rfloor>)"

definition exact_mean :: "8 word image \<Rightarrow> rat" where
  \<comment> \<open>the arithmetic mean of the pixel values\<close>
  "exact_mean gray = of_nat (sum_list (map unat (pixels gray))) / of_nat (length (pixels gray))"

definition ulp53 :: rat where
  \<comment> \<open>the unit roundoff of a double\<close>
  "ulp53 = 2 powi (-53)"

definition prefix_offset :: "string \<Rightarrow> int" where
  \<comment> \<open>the offset as a function of the first seven or eight characters of the
      case-folded name\<close>
  "prefix_offset name =
     (if take 7 (lower name) = ''license'' then 20
      else if take 8 (lower name) = ''passport'' then 30
      else 0)"

definition final_size_of :: "cv2_lib \<Rightarrow> string \<Rightarrow> int" where
  \<comment> \<open>the final size \<open>preprocess_image\<close> reports for a file of the \<open>images\<close> folder\<close>
  "final_size_of lib image_file =
     (case preprocess_image lib (path_join ''images'' image_file) (offset_for image_file) of
        Inl e \<Rightarrow> 0
      | Inr (bin_image, final_size_bytes) \<Rightarrow> final_size_bytes)"

definition digit_prefix :: "string \<Rightarrow> string" where
  \<comment> \<open>the digits of a value, in order, cut after the ninth\<close>
  "digit_prefix original = take 9 (filter isdigit original)"

fun is_record :: "json \<Rightarrow> bool" where
  \<comment> \<open>an object; when its \<open>id_type\<close> is \<open>passport\<close>, its \<open>id_number\<close> is absent or a string\<close>
  "is_record (JObj d) =
     (if map_of d ''id_type'' = Some (JStr ''passport'')
      then (case map_of d ''id_number'' of
              None \<Rightarrow> True
            | Some (JStr s) \<Rightarrow> True
            | Some _ \<Rightarrow> False)
      else True)"
| "is_record v = False"

definition id_number_of :: "(string \<times> json) list \<Rightarrow> string" where
  \<comment> \<open>the original \<open>id_number\<close> of a record, empty when the record has none\<close>
  "id_number_of d = (case map_of d ''id_number'' of Some (JStr s) \<Rightarrow> s | _ \<Rightarrow> [])"

fun expected_record :: "json \<Rightarrow> json" where
  \<comment> \<open>the record the post-processing rule asks for\<close>
  "expected_record (JObj d) =
     (if map_of d ''id_type'' = Some (JStr ''passport'')
      then JObj (AList.update ''id_number'' (JStr (digit_prefix (id_number_of d))) d)
      else JObj d)"
| "expected_record v = v"

definition record_line :: "json \<Rightarrow> line" where
  \<comment> \<open>a record as it is written to the results file\<close>
  "record_line item = [Dumps item, Lit ''\<newline>\<newline>'']"

fun is_record_line :: "line \<Rightarrow> bool" where
  "is_record_line (Dumps v # rest) = True"
| "is_record_line l = False"

definition all_space :: "string \<Rightarrow> bool" where
  \<comment> \<open>whitespace only\<close>
  "all_space w = list_all isspace w"

definition trimmed :: "string \<Rightarrow> bool" where
  \<comment> \<open>no whitespace at either end\<close>
  "trimmed core = (core = [] \<or> (\<not> isspace (hd core) \<and> \<not> isspace (last core)))"

definition no_linebreak :: "string \<Rightarrow> bool" where
  "no_linebreak l = (\<forall>c \<in> set l. \<not> is_linebreak c)"

definition is_break :: "string \<Rightarrow> bool" where
  \<comment> \<open>what ends a line: CR LF, or one line-break character\<close>
  "is_break b = (b = [CHR 0x0D, CHR 0x0A] \<or> (length b = 1 \<and> is_linebreak (hd b)))"

definition assemble :: "(string \<times> string) list \<Rightarrow> string" where
  \<comment> \<open>a text from its lines, each with the line break that ends it\<close>
  "assemble xs = concat (map (\<lambda>(l, b). l @ b) xs)"

fun breaks_ok :: "(string \<times> string) list \<Rightarrow> bool" where
  \<comment> \<open>lines without line-break characters, each ended by a line break; a lone CR is not
      followed by an empty line ended by LF (that text would read as CR LF)\<close>
  "breaks_ok [] = True"
| "breaks_ok [(l, b)] = (no_linebreak l \<and> is_break b)"
| "breaks_ok ((l, b) # (l', b') # rest) =
     (no_linebreak l \<and> is_break b
      \<and> \<not> (b = [CHR 0x0D] \<and> l' = [] \<and> b' = [CHR 0x0A])
      \<and> breaks_ok ((l', b') # rest))"

definition lf_joined :: "string list \<Rightarrow> string" where
  \<comment> \<open>the lines with one LF between neighbours\<close>
  "lf_joined ls = tl (concat (map (\<lambda>l. CHR 0x0A # l) ls))"

fun reply_of :: "json \<Rightarrow> string option" where
  \<comment> \<open>the reply of a response of the expected shape: \<open>choices[0].message.content\<close>,
      a string\<close>
  "reply_of (JObj d) =
     (case map_of d ''choices'' of
        Some (JArr (JObj c # _)) \<Rightarrow>
          (case map_of c ''message'' of
             Some (JObj m) \<Rightarrow>
               (case map_of m ''content'' of Some (JStr r) \<Rightarrow> Some r | _ \<Rightarrow> None)
           | _ \<Rightarrow> None)
      | _ \<Rightarrow> None)"
| "reply_of v = None"

fun usage_counters :: "json \<Rightarrow> usage option" where
  \<comment> \<open>the optional \<open>usage\<close> object of a response: each counter defaults to 0\<close>
  "usage_counters (JObj d) =
     (case map_of d ''usage'' of
        None \<Rightarrow> Some zero_usage
      | Some (JObj u) \<Rightarrow>
          Some (case map_of u ''prompt_tokens'' of None \<Rightarrow> JInt 0 | Some v \<Rightarrow> v,
                case map_of u ''completion_tokens'' of None \<Rightarrow> JInt 0 | Some v \<Rightarrow> v,
                case map_of u ''total_tokens'' of None \<Rightarrow> JInt 0 | Some v \<Rightarrow> v)
      | Some _ \<Rightarrow> None)"
| "usage_counters v = None"

section \<open>Concrete inputs\<close>

definition gray_100 :: "8 word image" where
  "gray_100 = \<lparr>rows = 1, cols = 2, pixels = [100, 100]\<rparr>"

definition gray_ramp :: "8 word image" where
  "gray_ramp = \<lparr>rows = 1, cols = 3, pixels = [99, 100, 101]\<rparr>"

text \<open>
  A folder with two decodable images, \<open>a.png\<close> of 1000 bytes whose result encodes to
  400 bytes and \<open>b.png\<close> of 2000 bytes whose result encodes to 600 bytes.
\<close>

definition two_images_lib :: cv2_lib where
  "two_images_lib =
     \<lparr>imread = (\<lambda>p. if p = ''images/a.png''
                     then Some \<lparr>rows = 1, cols = 1, pixels = [(0, 0, 0)]\<rparr>
                     else Some \<lparr>rows = 1, cols = 2, pixels = [(0, 0, 0), (0, 0, 0)]\<rparr>),
      inter_area = (\<lambda>img w h. pixels img),
      bgr2gray = (\<lambda>p. fst p),
      imencode = (\<lambda>img. (True, if cols img = 1 then 400 else 600))\<rparr>"

definition two_images_getsize :: "string \<Rightarrow> nat" where
  "two_images_getsize p = (if p = ''images/a.png'' then 1000 else 2000)"

definition two_images_totals :: totals where
  "two_images_totals =
     \<lparr>combined_original_size = 3000, combined_final_size = 1000,
      total_images_processed = 2, paths_read = [''images/a.png'', ''images/b.png'']\<rparr>"

definition two_records :: "json list" where
  "two_records =
     [JObj [(''filename'', JStr ''passport_1.jpg''), (''id_type'', JStr ''passport''),
            (''id_number'', JStr ''P-12 34A5678B90'')],
      JObj [(''filename'', JStr ''license_1.jpg''), (''id_type'', JStr ''drivers_license''),
            (''id_number'', JInt 12345678901)]]"

definition two_records_fixed :: "json list" where
  "two_records_fixed =
     [JObj [(''filename'', JStr ''passport_1.jpg''), (''id_type'', JStr ''passport''),
            (''id_number'', JStr ''123456789'')],
      JObj [(''filename'', JStr ''license_1.jpg''), (''id_type'', JStr ''drivers_license''),
            (''id_number'', JInt 12345678901)]]"

text \<open>
  A parsed reply in which the model gave the passport number as a JSON number:
  \<open>[{"id_type": "drivers_license", "id_number": "D123"},
    {"id_type": "passport", "id_number": 123456789012},
    {"id_type": "drivers_license", "id_number": "D456"}]\<close>.
\<close>

definition license_d123 :: json where
  "license_d123 = JObj [(''id_type'', JStr ''drivers_license''), (''id_number'', JStr ''D123'')]"

definition passport_number :: json where
  "passport_number = JObj [(''id_type'', JStr ''passport''), (''id_number'', JInt 123456789012)]"

definition license_d456 :: json where
  "license_d456 = JObj [(''id_type'', JStr ''drivers_license''), (''id_number'', JStr ''D456'')]"

definition trailing_newline_reply :: string where
  \<comment> \<open>an opening fence, never closed, and a newline at the end\<close>
  "trailing_newline_reply = ''```json\<newline>[1]\<newline>''"

definition blank_line_reply :: string where
  \<comment> \<open>a fenced block whose body starts with an empty line\<close>
  "blank_line_reply = ''```\<newline>\<newline>[1]\<newline>```''"

definition crlf_body :: "(string \<times> string) list" where
  "crlf_body = [(''[1,'', [CHR 0x0D, CHR 0x0A]), ('' 2]'', [CHR 0x0A])]"

definition crlf_fenced_reply :: string where
  \<comment> \<open>a fenced block with CR LF line ends, indented, with a newline after it\<close>
  "crlf_fenced_reply =
     ''  '' @ assemble ((''```json'', [CHR 0x0D, CHR 0x0A]) # crlf_body) @ ''```'' @ ''\<newline>''"

definition open_fence_core :: string where
  "open_fence_core = ''```json\<newline>[1, 2]''"

definition apology_response :: response where
  "apology_response =
     \<lparr>status_code = 200, body_text = [],
      json_body = Inr (JObj
        [(''choices'',
          JArr [JObj [(''message'',
            JObj [(''role'', JStr ''assistant''),
                  (''content'', JStr ''Sorry, I cannot read these images.'')])]]),
         (''usage'', JObj [(''prompt_tokens'', JInt 1200), (''completion_tokens'', JInt 9)])])\<rparr>"

definition apology_json :: json where
  "apology_json = (case json_body apology_response of Inr j \<Rightarrow> j | Inl e \<Rightarrow> JNull)"

definition rejecting_loads :: "string \<Rightarrow> error + json" where
  \<comment> \<open>\<open>json.loads\<close> on texts that are no JSON and nest no deeper than Python recurses\<close>
  "rejecting_loads s = Inl JSONDecodeError"

definition deep_text :: string where
  \<comment> \<open>a thousand opening brackets: not JSON, and \<open>json.loads\<close> raises RecursionError
      on it\<close>
  "deep_text = replicate 1000 CHR ''[''"

definition loads_deep :: "string \<Rightarrow> error + json" where
  \<comment> \<open>\<open>json.loads\<close> on \<open>deep_text\<close> and on texts that it rejects with JSONDecodeError\<close>
  "loads_deep s = (if s = deep_text then Inl RecursionError else Inl JSONDecodeError)"

definition deep_response :: response where
  "deep_response =
     \<lparr>status_code = 200, body_text = [],
      json_body = Inr (JObj
        [(''choices'',
          JArr [JObj [(''message'',
            JObj [(''role'', JStr ''assistant''), (''content'', JStr deep_text)])]])])\<rparr>"

definition null_usage_response :: response where
  \<comment> \<open>the apology again, in a response whose \<open>usage\<close> is \<open>null\<close>\<close>
  "null_usage_response =
     \<lparr>status_code = 200, body_text = [],
      json_body = Inr (JObj
        [(''choices'',
          JArr [JObj [(''message'',
            JObj [(''role'', JStr ''assistant''),
                  (''content'', JStr ''Sorry, I cannot read these images.'')])]]),
         (''usage'', JNull)])\<rparr>"

definition mixed_listing :: "string list" where
  "mixed_listing = [''scanpng'', ''notes.txt'', ''b.JPG'']"

definition notes_undecodable :: "string \<Rightarrow> bgr image option" where
  \<comment> \<open>a decoder for which \<open>images/notes.txt\<close> is unreadable\<close>
  "notes_undecodable p = (if p = ''images/notes.txt'' then None else imread two_images_lib p)"

definition notes_size_differs :: "string \<Rightarrow> nat" where
  "notes_size_differs p = (if p = ''images/notes.txt'' then 7 else two_images_getsize p)"

definition read_name :: "string \<Rightarrow> string" where
  "read_name p = p"

definition read_name_but_notes :: "string \<Rightarrow> string" where
  "read_name_but_notes p = (if p = ''preprocessed_images/notes.txt'' then [] else p)"

section \<open>Properties of float arithmetic\<close>

text \<open>
  The exponent brackets a positive number between two powers of two; rounding is
  monotone, leaves every number with a significand below \<open>2^53\<close> unchanged, and moves a
  number by at most the fraction \<open>2^-53\<close> of itself.
\<close>

lemma expo_hi_bounds:
  "1 \<le> x \<Longrightarrow> 0 \<le> expo_hi x \<and> 2 powi (expo_hi x) \<le> x \<and> x < 2 powi (expo_hi x + 1)"
proof (induction x rule: expo_hi.induct)
  case (1 x)
  show ?case
  proof (cases "2 \<le> x")
    case True
    then have "1 \<le> x / 2" by simp
    with 1 True have ih: "0 \<le> expo_hi (x / 2)" "2 powi (expo_hi (x / 2)) \<le> x / 2"
      "x / 2 < 2 powi (expo_hi (x / 2) + 1)" by simp_all
    have e: "expo_hi x = 1 + expo_hi (x / 2)" using True by (subst expo_hi.simps) simp
    have "(2::rat) powi (1 + expo_hi (x / 2)) = 2 * 2 powi (expo_hi (x / 2))"
      by (simp add: power_int_add)
    moreover have "(2::rat) powi (1 + expo_hi (x / 2) + 1) = 2 * 2 powi (expo_hi (x / 2) + 1)"
      by (simp add: power_int_add)
    ultimately show ?thesis using ih e by simp
  next
    case False
    then have e: "expo_hi x = 0" by (subst expo_hi.simps) simp
    with False 1 show ?thesis by simp
  qed
qed

lemma expo_lo_bounds:
  "0 < x \<Longrightarrow> x < 1 \<Longrightarrow> 2 powi (expo_lo x) \<le> x \<and> x < 2 powi (expo_lo x + 1)"
proof (induction x rule: expo_lo.induct)
  case (1 x)
  have e: "expo_lo x = expo_lo (2 * x) - 1" using 1(2,3) by (subst expo_lo.simps) simp
  show ?case
  proof (cases "2 * x < 1")
    case True
    with 1 have ih: "2 powi (expo_lo (2 * x)) \<le> 2 * x" "2 * x < 2 powi (expo_lo (2 * x) + 1)"
      by simp_all
    have "(2::rat) powi (expo_lo (2 * x)) = 2 * 2 powi (expo_lo (2 * x) - 1)"
      by (simp add: power_int_diff)
    moreover have "(2::rat) powi (expo_lo (2 * x) + 1) = 2 * 2 powi (expo_lo (2 * x))"
      by (simp add: power_int_add)
    ultimately show ?thesis using ih e by simp
  next
    case False
    then have "expo_lo (2 * x) = 0" by (subst expo_lo.simps) simp
    with e have "expo_lo x = -1" by simp
    with False 1(2,3) show ?thesis by (simp add: power_int_minus)
  qed
qed

lemma expo_bounds:
  "0 < x \<Longrightarrow> 2 powi (expo x) \<le> x \<and> x < 2 powi (expo x + 1)"
  using expo_hi_bounds[of x] expo_lo_bounds[of x] by (cases "1 \<le> x") (simp_all add: expo_def)

lemma pow2_less_cancel: "(2::rat) powi m < 2 powi n \<Longrightarrow> m < n"
proof (rule ccontr)
  assume a: "(2::rat) powi m < 2 powi n" and "\<not> m < n"
  then have "n \<le> m" by simp
  then have "(2::rat) powi n \<le> 2 powi m" by (rule power_int_increasing) simp
  with a show False by simp
qed

lemma expo_unique:
  assumes "0 < x" "2 powi e \<le> x" "x < 2 powi (e + 1)"
  shows "expo x = e"
proof -
  from expo_bounds[OF assms(1)] have b: "2 powi (expo x) \<le> x" "x < 2 powi (expo x + 1)" by simp_all
  have "(2::rat) powi e < 2 powi (expo x + 1)" using assms(2) b(2) by simp
  then have "e < expo x + 1" by (rule pow2_less_cancel)
  moreover have "(2::rat) powi (expo x) < 2 powi (e + 1)" using assms(3) b(1) by simp
  then have "expo x < e + 1" by (rule pow2_less_cancel)
  ultimately show ?thesis by simp
qed

lemma expo_mono: "0 < x \<Longrightarrow> x \<le> y \<Longrightarrow> expo x \<le> expo y"
proof -
  assume a: "0 < x" "x \<le> y"
  then have "0 < y" by simp
  from expo_bounds[OF a(1)] expo_bounds[OF this] a(2)
  have "(2::rat) powi (expo x) < 2 powi (expo y + 1)" by simp
  then have "expo x < expo y + 1" by (rule pow2_less_cancel)
  then show ?thesis by simp
qed

lemma rhe_error: "\<bar>of_int (round_half_even q) - q\<bar> \<le> 1 / 2"
proof -
  have "of_int \<lfloor>q\<rfloor> \<le> q" "q < of_int \<lfloor>q\<rfloor> + 1" by linarith+
  then show ?thesis by (auto simp: round_half_even_def Let_def)
qed

lemma rhe_of_int: "round_half_even (of_int k) = k"
  by (simp add: round_half_even_def)

lemma rhe_range: "of_int \<lfloor>q\<rfloor> \<le> (of_int (round_half_even q) :: rat)
    \<and> round_half_even q \<le> \<lfloor>q\<rfloor> + 1"
  by (auto simp: round_half_even_def Let_def)

lemma rhe_mono: "q \<le> q' \<Longrightarrow> round_half_even q \<le> round_half_even q'"
proof -
  assume le: "q \<le> q'"
  then have fl: "\<lfloor>q\<rfloor> \<le> \<lfloor>q'\<rfloor>" by (rule floor_mono)
  show ?thesis
  proof (cases "\<lfloor>q\<rfloor> = \<lfloor>q'\<rfloor>")
    case True
    with le have "q - of_int \<lfloor>q\<rfloor> \<le> q' - of_int \<lfloor>q'\<rfloor>" by simp
    with True show ?thesis by (auto simp: round_half_even_def Let_def)
  next
    case False
    with fl have "\<lfloor>q\<rfloor> + 1 \<le> \<lfloor>q'\<rfloor>" by simp
    moreover have "round_half_even q \<le> \<lfloor>q\<rfloor> + 1" using rhe_range by blast
    moreover have "\<lfloor>q'\<rfloor> \<le> round_half_even q'" by (auto simp: round_half_even_def Let_def)
    ultimately show ?thesis by linarith
  qed
qed

lemma rhe_mono_int: "of_int k \<le> q \<Longrightarrow> k \<le> round_half_even q"
  using rhe_mono[of "of_int k" q] by (simp add: rhe_of_int)

lemma rhe_mono_int2: "q \<le> of_int k \<Longrightarrow> round_half_even q \<le> k"
  using rhe_mono[of q "of_int k"] by (simp add: rhe_of_int)

lemma fl_pos:
  "0 < x \<Longrightarrow> fl x = of_int (round_half_even (x * 2 powi (52 - expo x))) * 2 powi (expo x - 52)"
  by (simp add: fl_def Let_def)

lemma fl_neg: "fl (- x) = - fl x"
  by (simp add: fl_def Let_def)

lemma scaled_range:
  assumes "0 < x"
  shows "2 ^ 52 \<le> x * 2 powi (52 - expo x)" "x * 2 powi (52 - expo x) < 2 ^ 53"
proof -
  from expo_bounds[OF assms] have b: "2 powi (expo x) \<le> x" "x < 2 powi (expo x + 1)" by simp_all
  have p: "(0::rat) < 2 powi (52 - expo x)" by simp
  have "2 powi (expo x) * 2 powi (52 - expo x) \<le> x * 2 powi (52 - expo x)"
    using b(1) p by (intro mult_right_mono) simp_all
  moreover have "(2::rat) powi (expo x) * 2 powi (52 - expo x) = 2 powi 52"
    by (simp flip: power_int_add)
  ultimately show "2 ^ 52 \<le> x * 2 powi (52 - expo x)" by simp
  have "x * 2 powi (52 - expo x) < 2 powi (expo x + 1) * 2 powi (52 - expo x)"
    using b(2) p by (intro mult_strict_right_mono) simp_all
  moreover have "(2::rat) powi (expo x + 1) * 2 powi (52 - expo x) = 2 powi 53"
    by (simp flip: power_int_add)
  ultimately show "x * 2 powi (52 - expo x) < 2 ^ 53" by simp
qed

lemma of_int_pow2_le: "2 ^ n \<le> m \<Longrightarrow> (2 ^ n :: rat) \<le> of_int m"
  by (metis of_int_le_iff of_int_numeral of_int_power)

lemma of_int_le_pow2: "m \<le> 2 ^ n \<Longrightarrow> (of_int m :: rat) \<le> 2 ^ n"
  by (metis of_int_le_iff of_int_numeral of_int_power)

lemma of_int_less_pow2: "m < 2 ^ n \<Longrightarrow> (of_int m :: rat) < 2 ^ n"
  by (metis of_int_less_iff of_int_numeral of_int_power)

lemma fl_range:
  assumes "0 < x"
  shows "2 powi (expo x) \<le> fl x" "fl x \<le> 2 powi (expo x + 1)"
proof -
  let ?m = "round_half_even (x * 2 powi (52 - expo x))"
  have "of_int (2 ^ 52) \<le> x * 2 powi (52 - expo x)" using scaled_range(1)[OF assms] by simp
  then have lo: "2 ^ 52 \<le> ?m" by (rule rhe_mono_int)
  have "x * 2 powi (52 - expo x) \<le> of_int (2 ^ 53)" using scaled_range(2)[OF assms] by simp
  then have hi: "?m \<le> 2 ^ 53" by (rule rhe_mono_int2)
  have p: "(0::rat) \<le> 2 powi (expo x - 52)" by simp
  have b1: "(2::rat) ^ 52 * 2 powi (expo x - 52) = 2 powi (expo x)"
    using power_int_add[of "2::rat" 52 "expo x - 52"] by simp
  have b2: "(2::rat) ^ 53 * 2 powi (expo x - 52) = 2 powi (expo x + 1)"
    using power_int_add[of "2::rat" 53 "expo x - 52"] by (simp add: add.commute)
  have "(2::rat) ^ 52 * 2 powi (expo x - 52) \<le> of_int ?m * 2 powi (expo x - 52)"
    using of_int_pow2_le[OF lo] p by (rule mult_right_mono)
  then have "(2::rat) powi (expo x) \<le> of_int ?m * 2 powi (expo x - 52)" unfolding b1 .
  then show "2 powi (expo x) \<le> fl x" unfolding fl_pos[OF assms] .
  have "of_int ?m * 2 powi (expo x - 52) \<le> (2::rat) ^ 53 * 2 powi (expo x - 52)"
    using of_int_le_pow2[OF hi] p by (rule mult_right_mono)
  then have "of_int ?m * 2 powi (expo x - 52) \<le> (2::rat) powi (expo x + 1)" unfolding b2 .
  then show "fl x \<le> 2 powi (expo x + 1)" unfolding fl_pos[OF assms] .
qed

lemma fl_mono_pos:
  assumes "0 < x" "x \<le> y"
  shows "fl x \<le> fl y"
proof -
  from assms have y: "0 < y" by simp
  from expo_mono[OF assms] have e: "expo x \<le> expo y" .
  show ?thesis
  proof (cases "expo x = expo y")
    case True
    have "x * 2 powi (52 - expo x) \<le> y * 2 powi (52 - expo x)"
      using assms(2) by (intro mult_right_mono) simp_all
    then have "round_half_even (x * 2 powi (52 - expo x)) \<le> round_half_even (y * 2 powi (52 - expo x))"
      by (rule rhe_mono)
    then have "(of_int (round_half_even (x * 2 powi (52 - expo x))) :: rat)
        \<le> of_int (round_half_even (y * 2 powi (52 - expo x)))" by simp
    then have "of_int (round_half_even (x * 2 powi (52 - expo x))) * 2 powi (expo x - 52)
        \<le> of_int (round_half_even (y * 2 powi (52 - expo x))) * (2::rat) powi (expo x - 52)"
      by (rule mult_right_mono) simp
    then show ?thesis using True by (simp add: fl_pos[OF assms(1)] fl_pos[OF y])
  next
    case False
    with e have "expo x + 1 \<le> expo y" by simp
    then have "(2::rat) powi (expo x + 1) \<le> 2 powi (expo y)" by (rule power_int_increasing) simp
    with fl_range(2)[OF assms(1)] fl_range(1)[OF y] show ?thesis by linarith
  qed
qed

lemma fl_exact:
  assumes "0 < k" "k < 2 ^ 53"
  shows "fl (of_int k * 2 powi j) = of_int k * 2 powi j"
proof -
  let ?x = "of_int k * (2::rat) powi j"
  have x: "0 < ?x" using assms(1) by simp
  let ?e = "expo ?x"
  from expo_bounds[OF x] have "2 powi ?e \<le> ?x" by simp
  also have "?x < 2 ^ 53 * 2 powi j"
  proof -
    have "(of_int k :: rat) < 2 ^ 53" using assms(2) by (rule of_int_less_pow2)
    then show ?thesis by (intro mult_strict_right_mono) simp_all
  qed
  also have "(2::rat) ^ 53 * 2 powi j = 2 powi (53 + j)"
    using power_int_add[of "2::rat" 53 j] by simp
  finally have "?e < 53 + j" by (rule pow2_less_cancel)
  then have nn: "0 \<le> j + 52 - ?e" by simp
  have "?x * 2 powi (52 - ?e) = of_int k * (2 powi j * 2 powi (52 - ?e))" by simp
  also have "(2::rat) powi j * 2 powi (52 - ?e) = 2 powi (j + 52 - ?e)"
    using power_int_add[of "2::rat" j "52 - ?e"] by (simp add: algebra_simps)
  also have "(2::rat) powi (j + 52 - ?e) = of_int (2 ^ nat (j + 52 - ?e))"
    using nn by (simp add: power_int_def)
  finally have q: "?x * 2 powi (52 - ?e) = of_int (k * 2 ^ nat (j + 52 - ?e))" by simp
  have "fl ?x = of_int (k * 2 ^ nat (j + 52 - ?e)) * 2 powi (?e - 52)"
    unfolding fl_pos[OF x] q rhe_of_int ..
  also have "\<dots> = of_int k * (2 powi (j + 52 - ?e) * 2 powi (?e - 52))"
    using nn by (simp add: power_int_def)
  also have "(2::rat) powi (j + 52 - ?e) * 2 powi (?e - 52) = 2 powi j"
    using power_int_add[of "2::rat" "j + 52 - ?e" "?e - 52"] by simp
  finally show ?thesis .
qed

lemma fl_error:
  assumes "0 < x"
  shows "\<bar>fl x - x\<bar> \<le> x * 2 powi (-53)"
proof -
  let ?e = "expo x"
  let ?q = "x * 2 powi (52 - ?e)"
  have p: "(0::rat) < 2 powi (?e - 52)" by simp
  have xq: "x = ?q * 2 powi (?e - 52)"
    using power_int_add[of "2::rat" "52 - ?e" "?e - 52"] by (simp add: mult.assoc)
  have "fl x - x = (of_int (round_half_even ?q) - ?q) * 2 powi (?e - 52)"
    using xq by (simp add: fl_pos[OF assms] algebra_simps)
  then have "\<bar>fl x - x\<bar> = \<bar>of_int (round_half_even ?q) - ?q\<bar> * 2 powi (?e - 52)"
    using p by (simp add: abs_mult)
  also have "\<dots> \<le> (1 / 2) * 2 powi (?e - 52)"
    using rhe_error[of ?q] p by (intro mult_right_mono) simp_all
  also have "(1 / 2) * (2::rat) powi (?e - 52) = 2 powi ?e * 2 powi (-53)"
    using power_int_add[of "2::rat" ?e "-53"] power_int_add[of "2::rat" "?e - 53" 1] by simp
  also have "\<dots> \<le> x * 2 powi (-53)"
    using expo_bounds[OF assms] by (intro mult_right_mono) simp_all
  finally show ?thesis .
qed

lemma fl_nonneg: "0 \<le> x \<Longrightarrow> 0 \<le> fl x"
proof (cases "x = 0")
  case True
  then show ?thesis by (simp add: fl_def)
next
  case False
  assume "0 \<le> x"
  with False have x: "0 < x" by simp
  have "(0::rat) \<le> 2 powi (expo x)" by simp
  with fl_range(1)[OF x] show ?thesis by linarith
qed

lemma fl_of_nat: "k < 2 ^ 53 \<Longrightarrow> fl (of_nat k) = of_nat k"
proof (cases "k = 0")
  case True
  then show ?thesis by (simp add: fl_def)
next
  case False
  assume "k < 2 ^ 53"
  then have "int k < 2 ^ 53" by (metis of_nat_less_iff of_nat_numeral of_nat_power)
  moreover from False have "0 < int k" by simp
  ultimately have "fl (of_int (int k) * 2 powi 0) = of_int (int k) * 2 powi 0"
    by (rule fl_exact[rotated])
  then show ?thesis by simp
qed

lemma mean_floor:
  fixes S n :: nat
  assumes n: "0 < n" "n \<le> 2 ^ 44" and S: "S \<le> 255 * n"
  shows "\<lfloor>fl (of_nat S / of_nat n)\<rfloor> = int (S div n)"
proof -
  let ?k = "S div n"
  let ?x = "(of_nat S / of_nat n) :: rat"
  have k255: "?k \<le> 255" using S n(1) by (metis div_le_mono nonzero_mult_div_cancel_right not_gr_zero)
  have npos: "(0::rat) < of_nat n" using n(1) by simp
  have "?k * n \<le> S" by simp
  then have "(of_nat (?k * n) :: rat) \<le> of_nat S" by (rule of_nat_mono)
  then have lo: "of_nat ?k \<le> ?x" using npos by (simp add: pos_le_divide_eq)
  have "S < ?k * n + n" using n(1) by (metis add.commute dividend_less_div_times mult.commute)
  then have "S + 1 \<le> (?k + 1) * n" by simp
  then have "(of_nat (S + 1) :: rat) \<le> of_nat ((?k + 1) * n)" by (rule of_nat_mono)
  then have "(of_nat S :: rat) + 1 \<le> (of_nat ?k + 1) * of_nat n"
    by (simp add: algebra_simps)
  then have "(of_nat S + 1) / of_nat n \<le> (of_nat ?k + 1 :: rat)"
    using npos by (simp add: pos_divide_le_eq)
  then have up1: "?x \<le> of_nat ?k + 1 - 1 / of_nat n"
    by (simp add: add_divide_distrib)
  have "(of_nat n :: rat) \<le> 2 ^ 44" using n(2) by (metis of_nat_le_iff of_nat_numeral of_nat_power)
  then have "1 / (2 ^ 44 :: rat) \<le> 1 / of_nat n"
    using npos by (intro divide_left_mono) simp_all
  with up1 have up: "?x \<le> of_nat ?k + 1 - 1 / 2 ^ 44" by linarith
  let ?K = "(int ?k + 1) * 2 ^ 44 - 1"
  have K: "0 < ?K" "?K < 2 ^ 53" using k255 by simp_all
  have d: "of_int ?K * (2::rat) powi (-44) = of_nat ?k + 1 - 1 / 2 ^ 44"
    by (simp add: power_int_minus field_simps)
  have fd: "fl (of_nat ?k + 1 - 1 / 2 ^ 44) = of_nat ?k + 1 - 1 / 2 ^ 44"
    using fl_exact[OF K, of "-44"] unfolding d .
  have ge: "of_nat ?k \<le> fl ?x"
  proof (cases "?k = 0")
    case True
    have "0 \<le> ?x" by simp
    then have "0 \<le> fl ?x" by (rule fl_nonneg)
    with True show ?thesis by simp
  next
    case False
    then have kp: "(0::rat) < of_nat ?k" by simp
    have "?k < 2 ^ 53" using k255 by simp
    then have "fl (of_nat ?k) = of_nat ?k" by (rule fl_of_nat)
    with fl_mono_pos[OF kp lo] show ?thesis by simp
  qed
  have lt: "fl ?x < of_nat ?k + 1"
  proof (cases "S = 0")
    case True
    then show ?thesis by (simp add: fl_def)
  next
    case False
    then have "0 < ?x" using npos by simp
    from fl_mono_pos[OF this up] fd have "fl ?x \<le> of_nat ?k + 1 - 1 / 2 ^ 44" by simp
    then show ?thesis by simp
  qed
  from ge lt show ?thesis by (simp add: floor_unique)
qed

lemma ulp53_small: "0 < ulp53" "ulp53 \<le> 1 / 4"
  by (simp_all add: ulp53_def power_int_minus)

lemma fl_error_abs: "\<bar>fl x - x\<bar> \<le> \<bar>x\<bar> * ulp53"
proof -
  consider "x = 0" | "0 < x" | "x < 0" by linarith
  then show ?thesis
  proof cases
    case 1
    then show ?thesis by (simp add: fl_def)
  next
    case 2
    with fl_error[OF 2] show ?thesis by (simp add: ulp53_def)
  next
    case 3
    then have "0 < - x" by simp
    from fl_error[OF this] have "\<bar>- fl x + x\<bar> \<le> - x * 2 powi (-53)" by (simp add: fl_neg)
    moreover have "\<bar>- fl x + x\<bar> = \<bar>fl x - x\<bar>" by simp
    ultimately show ?thesis using 3 by (simp add: ulp53_def)
  qed
qed

lemma pct_accuracy:
  fixes f o' :: int
  assumes "0 \<le> f" "0 < o'"
  shows "\<bar>fmul 100 (fsub 1 (truediv f o')) - 100 * (1 - of_int f / of_int o')\<bar>
           \<le> 400 * (1 + of_int f / of_int o') * ulp53"
proof -
  define u where "u = ulp53"
  define x :: rat where "x = of_int f / of_int o'"
  define r where "r = fl x"
  define y where "y = 1 - r"
  define s where "s = fl y"
  define p where "p = fl (100 * s)"
  have u: "0 < u" "u \<le> 1 / 4" using ulp53_small by (simp_all add: u_def)
  have x0: "0 \<le> x" using assms by (simp add: x_def)
  have e1: "\<bar>r - x\<bar> \<le> x * u" using fl_error_abs[of x] x0 by (simp add: r_def u_def)
  have e2: "\<bar>s - y\<bar> \<le> \<bar>y\<bar> * u" using fl_error_abs[of y] by (simp add: s_def u_def)
  have e3: "\<bar>p - 100 * s\<bar> \<le> 100 * \<bar>s\<bar> * u"
    using fl_error_abs[of "100 * s"] by (simp add: p_def u_def abs_mult)
  have xu: "0 \<le> x * u" using x0 u by simp
  have r1: "\<bar>r\<bar> \<le> x + x * u" using e1 x0 by linarith
  have y1: "\<bar>y\<bar> \<le> 1 + x + x * u" using r1 by (simp add: y_def) 
  have "x * u \<le> (1 + x) * u" using u by (simp add: algebra_simps)
  also have "(1 + x) * u \<le> (1 + x) * (1 / 4)"
    using u x0 by (intro mult_left_mono) simp_all
  finally have xu4: "x * u \<le> (1 + x) / 4" by simp
  have y2: "\<bar>y\<bar> \<le> (1 + x) * (5 / 4)" using y1 xu4 by (simp add: algebra_simps)
  have "\<bar>y\<bar> * u \<le> \<bar>y\<bar> * (1 / 4)" using u by (intro mult_left_mono) simp_all
  with e2 have "\<bar>s\<bar> \<le> \<bar>y\<bar> * (5 / 4)" by linarith
  with y2 have s2: "\<bar>s\<bar> \<le> (1 + x) * (25 / 16)" by linarith
  have t3: "\<bar>p - 100 * s\<bar> \<le> 100 * ((1 + x) * (25 / 16)) * u"
  proof -
    have "100 * \<bar>s\<bar> * u \<le> 100 * ((1 + x) * (25 / 16)) * u"
      using s2 u by (intro mult_right_mono mult_left_mono) simp_all
    with e3 show ?thesis by linarith
  qed
  have t2: "\<bar>s - y\<bar> \<le> (1 + x) * (5 / 4) * u"
  proof -
    have "\<bar>y\<bar> * u \<le> (1 + x) * (5 / 4) * u" using y2 u by (intro mult_right_mono) simp_all
    with e2 show ?thesis by linarith
  qed
  have t1: "\<bar>r - x\<bar> \<le> (1 + x) * u"
    using e1 \<open>x * u \<le> (1 + x) * u\<close> by linarith
  have "p - 100 * (1 - x) = (p - 100 * s) + 100 * (s - y) - 100 * (r - x)"
    by (simp add: y_def algebra_simps)
  moreover have "\<bar>A + B - C\<bar> \<le> \<bar>A\<bar> + \<bar>B\<bar> + \<bar>C\<bar>" for A B C :: rat
    by arith
  moreover have "\<bar>100 * (s - y)\<bar> = 100 * \<bar>s - y\<bar>" "\<bar>100 * (r - x)\<bar> = 100 * \<bar>r - x\<bar>"
    by (simp_all only: abs_mult abs_numeral)
  ultimately have "\<bar>p - 100 * (1 - x)\<bar> \<le> \<bar>p - 100 * s\<bar> + 100 * \<bar>s - y\<bar> + 100 * \<bar>r - x\<bar>"
    by metis
  also have "\<dots> \<le> 100 * ((1 + x) * (25 / 16)) * u + 100 * ((1 + x) * (5 / 4) * u)
                  + 100 * ((1 + x) * u)"
  proof (intro add_mono)
    show "\<bar>p - 100 * s\<bar> \<le> 100 * ((1 + x) * (25 / 16)) * u" by (rule t3)
    show "100 * \<bar>s - y\<bar> \<le> 100 * ((1 + x) * (5 / 4) * u)"
      using t2 by (intro mult_left_mono) simp_all
    show "100 * \<bar>r - x\<bar> \<le> 100 * ((1 + x) * u)"
      using t1 by (intro mult_left_mono) simp_all
  qed
  also have "\<dots> = (1 + x) * u * (1525 / 4)"
    by (simp add: field_simps)
  also have "\<dots> \<le> (1 + x) * u * 400"
    using x0 u by (intro mult_left_mono) simp_all
  finally have "\<bar>p - 100 * (1 - x)\<bar> \<le> 400 * (1 + x) * u" by (simp add: algebra_simps)
  then show ?thesis
    by (simp add: p_def s_def y_def r_def x_def u_def fmul_def fsub_def truediv_def)
qed

lemma py_int_nonneg: "0 \<le> x \<Longrightarrow> py_int x = \<lfloor>x\<rfloor>"
  by (simp add: py_int_def)

lemma resized_width_range:
  fixes w :: int
  assumes "4000 < w"
  shows "py_int (fmul (of_int w) (truediv 4000 w)) = 3999
       \<or> py_int (fmul (of_int w) (truediv 4000 w)) = 4000"
proof -
  define u where "u = ulp53"
  define x :: rat where "x = 4000 / of_int w"
  define r where "r = fl x"
  define P where "P = of_int w * r"
  define c where "c = fl P"
  have u: "0 < u" "u \<le> 1 / 2 ^ 53" by (simp_all add: u_def ulp53_def power_int_minus)
  have w: "(0::rat) < of_int w" using assms by simp
  have wx: "of_int w * x = 4000" using w by (simp add: x_def)
  have x0: "0 < x" using w by (simp add: x_def)
  have e1: "\<bar>r - x\<bar> \<le> x * u" using fl_error_abs[of x] x0 by (simp add: r_def u_def)
  have "P - 4000 = of_int w * r - of_int w * x" unfolding P_def wx ..
  then have "P - 4000 = of_int w * (r - x)" by (simp add: right_diff_distrib)
  then have "\<bar>P - 4000\<bar> = \<bar>of_int w\<bar> * \<bar>r - x\<bar>" by (simp only: abs_mult)
  then have "\<bar>P - 4000\<bar> = of_int w * \<bar>r - x\<bar>" using w by simp
  also have "\<dots> \<le> of_int w * (x * u)" using e1 w by (intro mult_left_mono) simp_all
  also have "\<dots> = 4000 * u" using wx by (simp add: mult.assoc[symmetric])
  finally have p1: "\<bar>P - 4000\<bar> \<le> 4000 * u" .
  have "4000 * u \<le> 4000 * (1 / 2 ^ 53)" using u by (intro mult_left_mono) simp_all
  then have small: "4000 * u \<le> 1 / 4" by simp
  have p2: "\<bar>P\<bar> \<le> 4001" using p1 small by linarith
  have e2: "\<bar>c - P\<bar> \<le> \<bar>P\<bar> * u" using fl_error_abs[of P] by (simp add: c_def u_def)
  have "\<bar>P\<bar> * u \<le> 4001 * u" using p2 u by (intro mult_right_mono) simp_all
  also have "4001 * u \<le> 4001 * (1 / 2 ^ 53)" using u by (intro mult_left_mono) simp_all
  also have "\<dots> \<le> 1 / 4" by simp
  finally have "\<bar>c - P\<bar> \<le> 1 / 4" using e2 by linarith
  with p1 small have "3999 < c" "c < 4001" by linarith+
  then have "3999 \<le> \<lfloor>c\<rfloor>" "\<lfloor>c\<rfloor> < 4001"
    by (simp_all add: le_floor_iff floor_less_iff)
  then have "\<lfloor>c\<rfloor> = 3999 \<or> \<lfloor>c\<rfloor> = 4000" by arith
  moreover have "0 \<le> c" using \<open>3999 < c\<close> by simp
  ultimately show ?thesis
    by (simp add: py_int_nonneg c_def P_def r_def x_def fmul_def truediv_def)
qed

section \<open>Properties of the Preprocessor\<close>

subsection \<open>Binarization\<close>

lemma binarize_shape:
  "rows (binarize gray offset) = rows gray \<and> cols (binarize gray offset) = cols gray
   \<and> length (pixels (binarize gray offset)) = length (pixels gray)"
  by (simp add: binarize_def cv2_threshold_binary_def)

lemma threshold_val_range: "0 \<le> threshold_val gray offset \<and> threshold_val gray offset \<le> 255"
  by (simp add: threshold_val_def Let_def)

text \<open>
  C1, as stated, fails: a pixel equal to the threshold becomes 0, not 255.  On the
  uniform image \<open>gray_100\<close> with offset 0 the threshold is 100, every pixel is 100, and
  every pixel of the result is 0.
\<close>

theorem binarize_at_threshold_counterexample:
  "threshold_val gray_100 0 \<le> uint (pixels gray_100 ! 0)
   \<and> pixels (binarize gray_100 0) ! 0 \<noteq> 255"
  by code_simp

text \<open>
  C1, amended: for every grayscale image and offset, binarization maps each pixel whose
  value is strictly greater than the computed threshold to 255 and every other pixel,
  one equal to the threshold included, to 0.
\<close>

theorem binarize_strictly_above:
  "i < length (pixels gray) \<Longrightarrow>
     pixels (binarize gray offset) ! i =
       (if threshold_val gray offset < uint (pixels gray ! i) then 255 else 0)"
  by (simp add: binarize_def cv2_threshold_binary_def)

theorem binarize_strictly_above_witness:
  "(1::nat) < length (pixels gray_ramp)
   \<and> threshold_val gray_ramp 0 = 100
   \<and> pixels gray_ramp ! 1 = 100
   \<and> pixels (binarize gray_ramp 0) ! 1 = 0"
proof -
  have len: "(1::nat) < length (pixels gray_ramp)" by (simp add: gray_ramp_def)
  have t: "threshold_val gray_ramp 0 = 100" by code_simp
  have p: "pixels gray_ramp ! 1 = 100" by (simp add: gray_ramp_def)
  from binarize_strictly_above[OF len, of 0] t p
  have "pixels (binarize gray_ramp 0) ! 1 = 0" by simp
  with len t p show ?thesis by simp
qed

subsection \<open>Threshold\<close>

lemma startswith_take: "startswith s p \<longleftrightarrow> take (length p) s = p"
  unfolding startswith_def prefix_def
  by (metis append_eq_conv_conj append_take_drop_id)

lemma offset_for_prefix: "offset_for name = prefix_offset name"
proof -
  have "startswith (lower name) ''license'' \<longleftrightarrow> take 7 (lower name) = ''license''"
    using startswith_take[of "lower name" "''license''"] by (simp add: eval_nat_numeral)
  moreover
  have "startswith (lower name) ''passport'' \<longleftrightarrow> take 8 (lower name) = ''passport''"
    using startswith_take[of "lower name" "''passport''"] by (simp add: eval_nat_numeral)
  ultimately show ?thesis
    by (simp add: offset_for_def prefix_offset_def Let_def)
qed

lemma py_int_truncate: "py_int x = truncate x"
  by (simp add: py_int_def truncate_def ceiling_def not_le)

lemma max_min_clamp: "max 0 (min 255 x) = clamp x 0 255"
  by (simp add: clamp_def)

lemma sum_unat_bound: "sum_list (map unat (px :: 8 word list)) \<le> 255 * length px"
proof (induction px)
  case Nil
  then show ?case by simp
next
  case (Cons p px)
  have "unat p < 2 ^ LENGTH(8)" by (rule unsigned_less)
  then have "unat p \<le> 255" by simp
  with Cons show ?case by simp
qed

lemma np_mean_truncated:
  assumes "pixels gray \<noteq> []" "length (pixels gray) \<le> 2 ^ 44"
  shows "py_int (np_mean gray) = truncate (exact_mean gray)"
proof -
  let ?S = "sum_list (map unat (pixels gray))"
  let ?n = "length (pixels gray)"
  have n: "0 < ?n" using assms(1) by simp
  have "(0::rat) \<le> of_nat ?S / of_nat ?n" by simp
  then have "0 \<le> np_mean gray" unfolding np_mean_def by (rule fl_nonneg)
  then have "py_int (np_mean gray) = \<lfloor>np_mean gray\<rfloor>" by (rule py_int_nonneg)
  also have "\<dots> = int (?S div ?n)"
    unfolding np_mean_def using n assms(2) sum_unat_bound by (rule mean_floor)
  also have "\<dots> = \<lfloor>(of_nat ?S / of_nat ?n) :: rat\<rfloor>"
    by (simp add: floor_divide_of_nat_eq)
  also have "\<dots> = truncate (exact_mean gray)"
  proof -
    have "\<not> (of_nat ?S / of_nat ?n :: rat) < 0" by (simp add: not_less)
    then show ?thesis by (simp add: truncate_def exact_mean_def)
  qed
  finally show ?thesis .
qed

text \<open>
  C5: the threshold of \<open>preprocess_image\<close>, called with the offset \<open>main\<close> chooses for
  the file, is \<open>clamp(truncate(mean(gray)) - offset, 0, 255)\<close>, the offset being 20, 30
  or 0 by the prefix of the case-folded name; two names that differ only in case get
  the same offset.  This holds with the float \<open>gray.mean()\<close> for the mean, and, for an
  image of at least one and at most \<open>2^44\<close> pixels, with the exact arithmetic mean: the
  rounding of the float quotient never reaches the next integer.
\<close>

theorem threshold_clamped_mean:
  "threshold_val gray (offset_for image_file) =
     clamp (truncate (np_mean gray) - prefix_offset image_file) 0 255
   \<and> (pixels gray \<noteq> [] \<and> length (pixels gray) \<le> 2 ^ 44 \<longrightarrow>
        threshold_val gray (offset_for image_file) =
          clamp (truncate (exact_mean gray) - prefix_offset image_file) 0 255)
   \<and> (lower image_file = lower other_file \<longrightarrow> offset_for image_file = offset_for other_file)"
proof (intro conjI impI)
  show "threshold_val gray (offset_for image_file) =
          clamp (truncate (np_mean gray) - prefix_offset image_file) 0 255"
    by (simp add: threshold_val_def Let_def max_min_clamp py_int_truncate offset_for_prefix)
next
  assume "pixels gray \<noteq> [] \<and> length (pixels gray) \<le> 2 ^ 44"
  then have "py_int (np_mean gray) = truncate (exact_mean gray)"
    by (simp add: np_mean_truncated)
  then show "threshold_val gray (offset_for image_file) =
          clamp (truncate (exact_mean gray) - prefix_offset image_file) 0 255"
    by (simp add: threshold_val_def Let_def max_min_clamp offset_for_prefix)
next
  assume "lower image_file = lower other_file"
  then show "offset_for image_file = offset_for other_file"
    by (simp add: offset_for_def)
qed

theorem threshold_clamped_mean_witness:
  "pixels gray_100 \<noteq> [] \<and> length (pixels gray_100) \<le> 2 ^ 44
   \<and> lower ''LICENSE_01.jpg'' = lower ''license_01.JPG''
   \<and> offset_for ''LICENSE_01.jpg'' = offset_for ''license_01.JPG''
   \<and> threshold_val gray_100 (offset_for ''LICENSE_01.jpg'') = 80
   \<and> clamp (truncate (exact_mean gray_100) - prefix_offset ''LICENSE_01.jpg'') 0 255 = 80"
proof -
  have g: "pixels gray_100 \<noteq> [] \<and> length (pixels gray_100) \<le> 2 ^ 44"
    by (simp add: gray_100_def)
  have l: "lower ''LICENSE_01.jpg'' = lower ''license_01.JPG''" by code_simp
  have v: "clamp (truncate (exact_mean gray_100) - prefix_offset ''LICENSE_01.jpg'') 0 255 = 80"
    by code_simp
  note inst = threshold_clamped_mean[of gray_100 "''LICENSE_01.jpg''" "''license_01.JPG''"]
  from inst g
  have t: "threshold_val gray_100 (offset_for ''LICENSE_01.jpg'') =
             clamp (truncate (exact_mean gray_100) - prefix_offset ''LICENSE_01.jpg'') 0 255"
    by blast
  from inst l have "offset_for ''LICENSE_01.jpg'' = offset_for ''license_01.JPG''" by blast
  moreover from t v have "threshold_val gray_100 (offset_for ''LICENSE_01.jpg'') = 80"
    by (rule trans)
  ultimately show ?thesis using g l v by blast
qed

subsection \<open>Resizing\<close>

lemma resize_image_small:
  "int (cols img) \<le> 4000 \<Longrightarrow> resize_image lib img 4000 = Inr img"
  by (simp add: resize_image_def Let_def)

lemma resize_image_large:
  assumes "4000 < int (cols img)" and "resize_image lib img 4000 = Inr resized"
  shows "cols resized = 3999 \<or> cols resized = 4000"
proof -
  let ?nw = "py_int (fmul (of_int (int (cols img))) (truediv 4000 (int (cols img))))"
  from resized_width_range[OF assms(1)] have nw: "?nw = 3999 \<or> ?nw = 4000" .
  from assms have "cols resized = nat ?nw"
    by (auto simp: resize_image_def cv2_resize_def Let_def split: if_splits)
  with nw show ?thesis by auto
qed

lemma new_size_4210: "py_int (fmul (of_int 4210) (truediv 4000 4210)) = 3999"
  by code_simp

text \<open>
  C6 at an image 4210 pixels wide and 4210 high: the quotient \<open>4000 / 4210\<close> is rounded
  down to a double, its product with 4210 is the double just below 4000, and \<open>int\<close>
  truncates it.  The image is resized to 3999 by 3999, where the claim says width 4000
  and height \<open>floor(4210 * 4000 / 4210) = 4000\<close>.
\<close>

theorem resize_image_4210:
  "resize_image lib \<lparr>rows = 4210, cols = 4210, pixels = px\<rparr> 4000 =
     Inr \<lparr>rows = 3999, cols = 3999,
          pixels = inter_area lib \<lparr>rows = 4210, cols = 4210, pixels = px\<rparr> 3999 3999\<rparr>"
  using new_size_4210 by (simp add: resize_image_def cv2_resize_def Let_def)

subsection \<open>Size reduction\<close>

lemma main_loop_totals:
  "main_loop lib getsize fs t = (t', None) \<Longrightarrow>
     combined_original_size t' =
       combined_original_size t + (\<Sum>f\<leftarrow>fs. int (getsize (path_join ''images'' f)))
   \<and> combined_final_size t' = combined_final_size t + (\<Sum>f\<leftarrow>fs. final_size_of lib f)
   \<and> total_images_processed t' = total_images_processed t + int (length fs)"
proof (induction fs arbitrary: t)
  case Nil
  then show ?case by simp
next
  case (Cons f fs)
  then show ?case
    by (auto simp: Let_def final_size_of_def split: sum.splits prod.splits)
qed

lemma main_totals:
  assumes "main lib getsize listing = (t, None)"
  shows "combined_original_size t =
           (\<Sum>f\<leftarrow>all_images listing. int (getsize (path_join ''images'' f)))"
    and "combined_final_size t = (\<Sum>f\<leftarrow>all_images listing. final_size_of lib f)"
    and "total_images_processed t = int (length (all_images listing))"
proof -
  from assms have "all_images listing \<noteq> []"
    by (auto simp: main_def split: if_splits)
  with assms have "main_loop lib getsize (all_images listing) totals_init = (t, None)"
    by (simp add: main_def)
  from main_loop_totals[OF this]
  show "combined_original_size t =
           (\<Sum>f\<leftarrow>all_images listing. int (getsize (path_join ''images'' f)))"
    and "combined_final_size t = (\<Sum>f\<leftarrow>all_images listing. final_size_of lib f)"
    and "total_images_processed t = int (length (all_images listing))"
    by (simp_all add: totals_init_def)
qed

lemma two_images_run:
  "main two_images_lib two_images_getsize [''b.png'', ''a.png''] = (two_images_totals, None)"
  by code_simp

text \<open>
  C4, as stated, fails at its own example: with original sizes 1000 and 2000 and final
  sizes 400 and 600 the reduction is 2000 bytes, but the percentage printed with two
  decimals is not 33.33.
\<close>

theorem size_reduction_example_counterexample:
  "main two_images_lib two_images_getsize [''b.png'', ''a.png''] = (two_images_totals, None)
   \<and> combined_original_size two_images_totals = 1000 + 2000
   \<and> combined_final_size two_images_totals = 400 + 600
   \<and> size_reduced two_images_totals = 2000
   \<and> format_2f (size_reduced_pct two_images_totals) \<noteq> 3333"
proof -
  have "combined_original_size two_images_totals = 1000 + 2000
      \<and> combined_final_size two_images_totals = 400 + 600
      \<and> size_reduced two_images_totals = 2000
      \<and> format_2f (size_reduced_pct two_images_totals) \<noteq> 3333"
    by code_simp
  with two_images_run show ?thesis by blast
qed

lemma final_size_of_nonneg: "0 \<le> final_size_of lib f"
  by (auto simp: final_size_of_def preprocess_image_def Let_def
      split: option.splits sum.splits prod.splits if_splits)

text \<open>
  C4, amended: for every batch that \<open>main\<close> processes to the end, the reduction is the
  sum of the original sizes minus the sum of the final sizes, and the percentage is
  \<open>100 * (1 - final / original)\<close> evaluated in double arithmetic (within
  \<open>400 * (1 + final / original) * 2^-53\<close> of the exact value), or 0 when the sum of the
  original sizes is 0; for original sizes 1000, 2000 and final sizes 400, 600 the
  reduction is 2000 bytes and the percentage is 66.67.
\<close>

theorem size_reduction:
  assumes "main lib getsize listing = (t, None)"
  shows "size_reduced t =
           (\<Sum>f\<leftarrow>all_images listing. int (getsize (path_join ''images'' f)))
           - (\<Sum>f\<leftarrow>all_images listing. final_size_of lib f)
       \<and> size_reduced_pct t =
           (if (\<Sum>f\<leftarrow>all_images listing. int (getsize (path_join ''images'' f))) = 0 then 0
            else fmul 100 (fsub 1 (truediv
                   (\<Sum>f\<leftarrow>all_images listing. final_size_of lib f)
                   (\<Sum>f\<leftarrow>all_images listing. int (getsize (path_join ''images'' f))))))
       \<and> ((\<Sum>f\<leftarrow>all_images listing. int (getsize (path_join ''images'' f))) \<noteq> 0 \<longrightarrow>
            \<bar>size_reduced_pct t
               - 100 * (1 - of_int (\<Sum>f\<leftarrow>all_images listing. final_size_of lib f)
                             / of_int (\<Sum>f\<leftarrow>all_images listing.
                                          int (getsize (path_join ''images'' f))))\<bar>
            \<le> 400 * (1 + of_int (\<Sum>f\<leftarrow>all_images listing. final_size_of lib f)
                           / of_int (\<Sum>f\<leftarrow>all_images listing.
                                        int (getsize (path_join ''images'' f)))) * ulp53)"
proof -
  let ?O = "\<Sum>f\<leftarrow>all_images listing. int (getsize (path_join ''images'' f))"
  let ?F = "\<Sum>f\<leftarrow>all_images listing. final_size_of lib f"
  have o: "0 \<le> ?O" by (rule sum_list_nonneg) auto
  have f: "0 \<le> ?F" by (rule sum_list_nonneg) (auto simp: final_size_of_nonneg)
  have ct: "combined_original_size t = ?O" "combined_final_size t = ?F"
    using main_totals(1,2)[OF assms] by simp_all
  have a: "size_reduced t = ?O - ?F" using ct by (simp add: size_reduced_def)
  have b: "size_reduced_pct t = (if ?O = 0 then 0 else fmul 100 (fsub 1 (truediv ?F ?O)))"
    using ct o by (auto simp: size_reduced_pct_def)
  have c: "\<bar>size_reduced_pct t - 100 * (1 - of_int ?F / of_int ?O)\<bar>
             \<le> 400 * (1 + of_int ?F / of_int ?O) * ulp53" if "?O \<noteq> 0"
  proof -
    from that o have "0 < ?O" by simp
    from pct_accuracy[OF f this] b that show ?thesis by simp
  qed
  from a b c show ?thesis by blast
qed

theorem size_reduction_witness:
  "main two_images_lib two_images_getsize [''b.png'', ''a.png''] = (two_images_totals, None)
   \<and> size_reduced two_images_totals = 2000
   \<and> format_2f (size_reduced_pct two_images_totals) = 6667
   \<and> \<bar>size_reduced_pct two_images_totals - 200 / 3\<bar> \<le> 1 / 10 ^ 12"
proof -
  have run: "main two_images_lib two_images_getsize [''b.png'', ''a.png'']
               = (two_images_totals, None)"
    by (rule two_images_run)
  have o: "(\<Sum>f\<leftarrow>all_images [''b.png'', ''a.png''].
              int (two_images_getsize (path_join ''images'' f))) = 3000"
    by code_simp
  have f: "(\<Sum>f\<leftarrow>all_images [''b.png'', ''a.png'']. final_size_of two_images_lib f) = 1000"
    by code_simp
  have p: "format_2f (fmul 100 (fsub 1 (truediv 1000 3000))) = 6667"
    by code_simp
  note inst = size_reduction[OF run, unfolded o f]
  have u: "ulp53 = 1 / 2 ^ 53" by (simp add: ulp53_def power_int_minus)
  from inst have r: "size_reduced two_images_totals = 2000" by simp
  from inst have q: "size_reduced_pct two_images_totals = fmul 100 (fsub 1 (truediv 1000 3000))"
    by simp
  from inst have "(3000::int) \<noteq> 0 \<longrightarrow>
      \<bar>size_reduced_pct two_images_totals - 100 * (1 - of_int 1000 / of_int 3000)\<bar>
      \<le> 400 * (1 + of_int 1000 / of_int 3000) * ulp53"
    by (rule conjunct2[THEN conjunct2])
  then have "\<bar>size_reduced_pct two_images_totals - 200 / 3\<bar> \<le> 1600 / 3 * (1 / 2 ^ 53)"
    unfolding u by simp
  then have e: "\<bar>size_reduced_pct two_images_totals - 200 / 3\<bar> \<le> 1 / 10 ^ 12"
    by simp
  from q p have "format_2f (size_reduced_pct two_images_totals) = 6667" by simp
  with run r e show ?thesis by blast
qed

section \<open>Properties of the Extractor\<close>

subsection \<open>The request content\<close>

lemma add_images_append:
  "add_images rd fs acc = acc @ concat (map (\<lambda>f. [image_block rd f, caption_block f]) fs)"
  by (induction fs arbitrary: acc) simp_all

lemma batch_content_blocks:
  "batch_content rd ls =
     TextBlock instructions_text
       # concat (map (\<lambda>f. [image_block rd f, caption_block f]) (image_files ls))"
  by (simp add: batch_content_def add_images_append)

lemma is_image_name_ab: "is_image_name ''a.jpg''" "is_image_name ''b.jpg''"
  by code_simp+

lemma sort_ba: "sort [''b.jpg'', ''a.jpg''] = [''a.jpg'', ''b.jpg'']"
  by code_simp

text \<open>
  C2 at a folder that the system lists as \<open>b.jpg\<close>, \<open>a.jpg\<close>: the content is the
  instruction block and then one image block and one caption per file, but in the order
  of the listing, \<open>b.jpg\<close> before \<open>a.jpg\<close>.  The Preprocessor sorts the same listing.
\<close>

theorem batch_content_listing_order:
  "batch_content rd [''b.jpg'', ''a.jpg''] =
     [TextBlock instructions_text,
      image_block rd ''b.jpg'', caption_block ''b.jpg'',
      image_block rd ''a.jpg'', caption_block ''a.jpg'']
   \<and> all_images [''b.jpg'', ''a.jpg''] = [''a.jpg'', ''b.jpg'']"
  using is_image_name_ab sort_ba
  by (simp add: batch_content_blocks image_files_def all_images_def)

subsection \<open>A response that is not 200\<close>

lemma handle_response_not_200:
  "status_code resp \<noteq> 200 \<Longrightarrow>
     handle_response ld n d resp s =
       (print_line [Lit ''Error '', Num (status_code resp), Lit '': '', Lit (body_text resp)] s,
        Inl (NameError ''error_msg''))"
  by (simp add: handle_response_def)

text \<open>
  C3 at a response with status 500: the script prints the status and the body, and the
  next statement, \<open>results.write(error_msg)\<close>, raises NameError, since no \<open>error_msg\<close>
  is ever bound.  Nothing is written to the results file, no counter is set to zero and
  the statistics after the block are never printed.
\<close>

theorem handle_response_500:
  "handle_response ld n d
     \<lparr>status_code = 500, body_text = ''Internal Server Error'',
       json_body = Inl JSONDecodeError\<rparr> io_init =
   (\<lparr>results_file = [],
     console = [[Lit ''Error '', Num 500, Lit '': '', Lit ''Internal Server Error'']]\<rparr>,
    Inl (NameError ''error_msg''))"
  by (simp add: handle_response_def print_line_def io_init_def)

lemma extractor_not_200:
  assumes "fireworks_api_key w = Some key" "fireworks_endpoint w = Some url"
    and "key \<noteq> []" "url \<noteq> []"
    and "image_files (env_listing w) \<noteq> []"
    and "env_post w url (build_headers key)
           (build_payload (fireworks_model w)
              (batch_content (env_read_b64 w) (env_listing w))) = Inr resp"
    and "status_code resp \<noteq> 200"
  shows "snd (extractor w) = Inl (NameError ''error_msg'')"
    and "results_file (fst (extractor w)) = []"
    and "console (fst (extractor w)) =
           [[Lit ''Loaded Endpoint: '', Env (fireworks_endpoint w)],
            [Lit ''Loaded Model: '', Env (fireworks_model w)],
            [Lit ''Error '', Num (status_code resp), Lit '': '', Lit (body_text resp)]]"
  using assms
  by (simp_all add: extractor_def Let_def handle_response_not_200 print_line_def io_init_def)

subsection \<open>Passport numbers\<close>

lemma keep_digits_chars: "keep_digits (map (\<lambda>c. JStr [c]) s) = Inr (filter isdigit s)"
  by (induction s) (simp_all add: str_isdigit_def)

lemma digits_only_str: "digits_only (JStr s) = Inr (filter isdigit s)"
  by (simp add: digits_only_def keep_digits_chars)

lemma fix_item_record: "is_record item \<Longrightarrow> fix_item item = Inr (expected_record item)"
proof (cases item)
  case (JObj d)
  assume "is_record item"
  with JObj show ?thesis
    by (auto simp: fix_item_def digits_only_str digit_prefix_def id_number_of_def
        split: option.splits json.splits if_splits)
qed simp_all

lemma digit_prefix_short: "length (filter isdigit s) \<le> 9 \<Longrightarrow> digit_prefix s = filter isdigit s"
  by (simp add: digit_prefix_def)

lemma digit_prefix_digits:
  "length (digit_prefix s) \<le> 9 \<and> list_all isdigit (digit_prefix s) \<and> subseq (digit_prefix s) s"
proof -
  have "subseq (take 9 (filter isdigit s)) (filter isdigit s)"
    by (metis append_take_drop_id list_emb_append_mono subseq_order.order_refl
        list_emb_Nil self_append_conv)
  moreover have "subseq (filter isdigit s) s" by simp
  ultimately have "subseq (digit_prefix s) s"
    unfolding digit_prefix_def by (rule subseq_order.order_trans)
  moreover have "list_all isdigit (digit_prefix s)"
    unfolding digit_prefix_def list_all_iff by (auto dest: in_set_takeD)
  ultimately show ?thesis by (simp add: digit_prefix_def)
qed

text \<open>
  On objects whose \<open>id_number\<close>, when their \<open>id_type\<close> is \<open>passport\<close>, is a string or
  absent, the loop does what the rule asks: it writes every record, in order, a passport
  record with its \<open>id_number\<close> replaced by the digits of the original value, in order,
  cut after the ninth, every other record as it is.
\<close>

lemma write_items_records:
  "\<forall>item \<in> set items. is_record item \<Longrightarrow>
     write_items items s =
       (s\<lparr>results_file :=
            results_file s @ map (\<lambda>item. record_line (expected_record item)) items\<rparr>,
        Inr (map expected_record items))"
proof (induction items arbitrary: s)
  case Nil
  then show ?case by simp
next
  case (Cons item items)
  then show ?case
    by (simp add: fix_item_record write_results_def record_line_def)
qed

lemma write_items_two_records:
  "write_items two_records io_init =
     (\<lparr>results_file = map record_line two_records_fixed, console = []\<rparr>,
      Inr two_records_fixed)"
proof -
  have h: "\<forall>item \<in> set two_records. is_record item"
    by (simp add: two_records_def)
  have e: "map expected_record two_records = two_records_fixed"
    by code_simp
  have "map (\<lambda>item. record_line (expected_record item)) two_records
          = map record_line (map expected_record two_records)"
    by simp
  with write_items_records[OF h, of io_init] e show ?thesis
    by (simp add: io_init_def)
qed

text \<open>
  C7: a passport record is not always written with the digits of its number.  When the
  parsed reply gives the passport number as a JSON number, as in
  \<open>{"id_type": "passport", "id_number": 123456789012}\<close>, the generator over
  \<open>original_id\<close> raises TypeError: the record before it has been written, the record
  itself and the records after it are not, and the block is left with the exception.
\<close>

theorem passport_number_not_a_string:
  "fix_item passport_number = Inl TypeError
   \<and> write_items [license_d123, passport_number, license_d456] io_init =
       (\<lparr>results_file = [[Dumps license_d123, Lit ''\<newline>\<newline>'']], console = []\<rparr>,
        Inl TypeError)"
  by (simp add: fix_item_def digits_only_def passport_number_def license_d123_def
      write_results_def io_init_def)

subsection \<open>Fences\<close>

lemma is_linebreak_cr: "of_char c = (13::nat) \<Longrightarrow> is_linebreak c"
  by (simp add: is_linebreak_def)

lemma of_char_13: "of_char c = (13::nat) \<longleftrightarrow> c = CHR 0x0D"
proof
  assume "of_char c = (13::nat)"
  then have "of_char c = (of_char (CHR 0x0D) :: nat)" by simp
  then show "c = CHR 0x0D" by (simp only: of_char_eq_iff)
qed simp

lemma of_char_10: "of_char c = (10::nat) \<longleftrightarrow> c = CHR 0x0A"
proof
  assume "of_char c = (10::nat)"
  then have "of_char c = (of_char (CHR 0x0A) :: nat)" by simp
  then show "c = CHR 0x0A" by (simp only: of_char_eq_iff)
qed simp

lemma splitlines_from_text:
  "\<forall>c \<in> set l. \<not> is_linebreak c \<Longrightarrow>
     splitlines_from cur (l @ r) = splitlines_from (cur @ l) r"
proof (induction l arbitrary: cur)
  case Nil
  then show ?case by simp
next
  case (Cons c l)
  then have c: "\<not> is_linebreak c"
    and ih: "\<And>cur. splitlines_from cur (l @ r) = splitlines_from (cur @ l) r"
    by simp_all
  from c is_linebreak_cr have ncr: "of_char c \<noteq> (13::nat)" by blast
  show ?case
  proof (cases "l @ r")
    case Nil
    then show ?thesis using c by simp
  next
    case (Cons d cs)
    have "splitlines_from cur (c # d # cs) = splitlines_from (cur @ [c]) (d # cs)"
      using c ncr by simp
    then show ?thesis using ih[of "cur @ [c]"] Cons by simp
  qed
qed

lemma splitlines_from_break:
  assumes "is_break b" and "b = [CHR 0x0D] \<longrightarrow> r = [] \<or> hd r \<noteq> CHR 0x0A"
  shows "splitlines_from cur (b @ r) = cur # splitlines_from [] r"
proof (cases "b = [CHR 0x0D, CHR 0x0A]")
  case True
  then show ?thesis by simp
next
  case False
  with assms(1) obtain c where b: "b = [c]" and c: "is_linebreak c"
    by (cases b) (auto simp: is_break_def)
  show ?thesis
  proof (cases r)
    case Nil
    then show ?thesis using b c by simp
  next
    case (Cons d cs)
    have "\<not> (of_char c = (13::nat) \<and> of_char d = (10::nat))"
      using assms(2) b Cons by (auto simp: of_char_13 of_char_10)
    then show ?thesis using b c Cons by auto
  qed
qed

lemma break_hd: "is_break b \<Longrightarrow> hd b = CHR 0x0A \<Longrightarrow> b = [CHR 0x0A]"
  by (cases b) (auto simp: is_break_def)

lemma break_nonempty: "is_break b \<Longrightarrow> b \<noteq> []"
  by (auto simp: is_break_def)

lemma newline_linebreak: "is_linebreak CHR 0x0A"
  by code_simp

lemma breaks_ok_Cons:
  "breaks_ok ((l, b) # rest) \<Longrightarrow> no_linebreak l \<and> is_break b \<and> breaks_ok rest"
  by (cases rest) auto

lemma assemble_Cons: "assemble ((l, b) # rest) = l @ b @ assemble rest"
  by (simp add: assemble_def)

lemma text_line: "no_linebreak t \<Longrightarrow> t \<noteq> [] \<Longrightarrow> splitlines_from cur t = [cur @ t]"
proof -
  assume t: "no_linebreak t" "t \<noteq> []"
  have "splitlines_from cur (t @ []) = splitlines_from (cur @ t) []"
    using t(1) by (intro splitlines_from_text) (simp add: no_linebreak_def)
  then show ?thesis using t(2) by simp
qed

lemma hd_not_newline: "no_linebreak t \<Longrightarrow> t \<noteq> [] \<Longrightarrow> hd t \<noteq> CHR 0x0A"
  using newline_linebreak by (cases t) (auto simp: no_linebreak_def)

lemma hd_rest:
  assumes ok: "breaks_ok ((l, b) # xs)" and t: "no_linebreak t" "t \<noteq> []" and cr: "b = [CHR 0x0D]"
  shows "hd (assemble xs @ t) \<noteq> CHR 0x0A"
proof (cases xs)
  case Nil
  then show ?thesis using hd_not_newline[OF t] by (simp add: assemble_def)
next
  case (Cons x rest)
  obtain l' b' where x: "x = (l', b')" by (cases x)
  from ok Cons x have nocr: "\<not> (l' = [] \<and> b' = [CHR 0x0A])" using cr by simp
  from ok Cons x have ok': "breaks_ok ((l', b') # rest)" by simp
  from breaks_ok_Cons[OF ok'] have l': "no_linebreak l'" and b': "is_break b'" by simp_all
  show ?thesis
  proof (cases "l' = []")
    case True
    with nocr have "b' \<noteq> [CHR 0x0A]" by simp
    with break_hd[OF b'] have "hd b' \<noteq> CHR 0x0A" by blast
    moreover have "hd (assemble xs @ t) = hd b'"
      using Cons x True break_nonempty[OF b'] by (simp add: assemble_Cons)
    ultimately show ?thesis by simp
  next
    case False
    have "hd (assemble xs @ t) = hd l'"
      using Cons x False by (simp add: assemble_Cons)
    then show ?thesis using hd_not_newline[OF l' False] by simp
  qed
qed

lemma splitlines_assemble:
  assumes "breaks_ok xs" "no_linebreak t" "t \<noteq> []"
  shows "splitlines_from cur (assemble xs @ t) =
           (case xs of [] \<Rightarrow> [cur @ t] | (l, b) # rest \<Rightarrow> (cur @ l) # map fst rest @ [t])"
  using assms(1)
proof (induction xs arbitrary: cur)
  case Nil
  show ?case using text_line[OF assms(2,3)] by (simp add: assemble_def)
next
  case (Cons x xs)
  obtain l b where x: "x = (l, b)" by (cases x)
  from Cons.prems x have ok: "breaks_ok ((l, b) # xs)" by simp
  from breaks_ok_Cons[OF ok] have l: "no_linebreak l" and b: "is_break b" and oks: "breaks_ok xs"
    by simp_all
  let ?R = "assemble xs @ t"
  have hdR: "b = [CHR 0x0D] \<longrightarrow> ?R = [] \<or> hd ?R \<noteq> CHR 0x0A"
    using hd_rest[OF ok assms(2,3)] by blast
  have ih: "splitlines_from [] ?R = map fst xs @ [t]"
  proof (cases xs)
    case Nil
    then show ?thesis using Cons.IH[OF oks, of "[]"] by simp
  next
    case (Cons y ys)
    obtain l' b' where "y = (l', b')" by (cases y)
    then show ?thesis using Cons Cons.IH[OF oks, of "[]"] by simp
  qed
  have "splitlines_from cur (assemble (x # xs) @ t) = splitlines_from cur (l @ (b @ ?R))"
    using x by (simp add: assemble_Cons)
  also have "\<dots> = splitlines_from (cur @ l) (b @ ?R)"
    using l by (intro splitlines_from_text) (simp add: no_linebreak_def)
  also have "\<dots> = (cur @ l) # splitlines_from [] ?R"
    by (rule splitlines_from_break[OF b hdR])
  finally show ?case using ih x by simp
qed

lemma strip_core:
  assumes w1: "all_space w1" and w2: "all_space w2" and core: "trimmed core"
  shows "strip (w1 @ core @ w2) = core"
proof (cases "core = []")
  case True
  have a: "dropWhile isspace (w1 @ w2) = []"
    unfolding dropWhile_eq_Nil_conv using w1 w2 by (auto simp: all_space_def list_all_iff)
  show ?thesis unfolding strip_def True append_Nil a by simp
next
  case False
  with core have h: "\<not> isspace (hd core)" and l: "\<not> isspace (last core)"
    by (simp_all add: trimmed_def)
  have "dropWhile isspace (w1 @ (core @ w2)) = dropWhile isspace (core @ w2)"
    using w1 by (intro dropWhile_append2) (simp add: all_space_def list_all_iff)
  also have "\<dots> = core @ w2" using False h by (cases core) simp_all
  finally have a: "dropWhile isspace (w1 @ core @ w2) = core @ w2" by simp
  have "dropWhile isspace (rev w2 @ rev core) = dropWhile isspace (rev core)"
    using w2 by (intro dropWhile_append2) (simp add: all_space_def list_all_iff)
  also have "\<dots> = rev core"
    using False l by (cases "rev core") (simp_all add: last_rev[symmetric] hd_rev)
  finally show ?thesis using a by (simp add: strip_def)
qed

lemma join_lf: "join [CHR 0x0A] ls = lf_joined ls"
proof (induction ls)
  case Nil
  then show ?case by (simp add: lf_joined_def)
next
  case (Cons x ls)
  then show ?case by (cases ls) (simp_all add: lf_joined_def)
qed

lemma backtick_not_space: "\<not> isspace CHR 0x60"
  by code_simp

lemma marker_no_linebreak: "no_linebreak ''```''"
  unfolding no_linebreak_def by code_simp

lemma fenced_core:
  assumes first: "prefix ''```'' first" and ok: "breaks_ok ((first, b0) # body)"
    and w: "all_space w1" "all_space w2"
  shows "strip_fences (w1 @ assemble ((first, b0) # body) @ ''```'' @ w2) =
           strip (lf_joined (map fst body))"
proof -
  let ?core = "assemble ((first, b0) # body) @ ''```''"
  from first obtain r where fr: "first = ''```'' @ r" by (auto simp: prefix_def)
  have hdc: "hd ?core = CHR 0x60" using fr by (simp add: assemble_Cons)
  have lastc: "last ?core = CHR 0x60" by simp
  have tr: "trimmed ?core"
    using hdc lastc backtick_not_space by (simp add: trimmed_def)
  have st: "strip (w1 @ ?core @ w2) = ?core"
    using w tr by (intro strip_core) simp_all
  have p: "startswith ?core ''```''"
    using fr by (simp add: startswith_def assemble_Cons)
  have q: "endswith ?core ''```''"
    by (simp add: endswith_def suffix_def)
  have "splitlines ?core = first # map fst body @ [''```'']"
    unfolding splitlines_def
    using splitlines_assemble[OF ok marker_no_linebreak, of "[]"] by simp
  then have bl: "butlast (tl (splitlines ?core)) = map fst body"
    by (simp add: butlast_append)
  have "strip_fences (w1 @ ?core @ w2) = strip (join ''\<newline>'' (map fst body))"
    using st p q bl by (simp add: strip_fences_def Let_def)
  then show ?thesis by (simp add: join_lf)
qed

text \<open>
  C8, as stated, fails on two replies.  \<open>trailing_newline_reply\<close> has an opening
  marker only, and what is parsed is not the reply: the newline at its end is gone.
  \<open>blank_line_reply\<close> is a fenced block whose lines are the marker, an empty line,
  \<open>[1]\<close> and the marker, and what is parsed is \<open>[1]\<close>: the empty line is gone with the
  first and the last one.
\<close>

theorem strip_fences_unmodified_counterexample:
  "startswith (strip trailing_newline_reply) ''```''
   \<and> \<not> endswith (strip trailing_newline_reply) ''```''
   \<and> strip_fences trailing_newline_reply = ''```json\<newline>[1]''
   \<and> strip_fences trailing_newline_reply \<noteq> trailing_newline_reply
   \<and> startswith (strip blank_line_reply) ''```''
   \<and> endswith (strip blank_line_reply) ''```''
   \<and> splitlines (strip blank_line_reply) = [''```'', [], ''[1]'', ''```'']
   \<and> strip_fences blank_line_reply = ''[1]''"
  by code_simp

text \<open>
  C8, amended: whitespace around the reply never reaches the parser.  When what is left
  is a fenced block (an opening line that starts with the marker, the lines of a body,
  each ended by a line break of any kind, and a closing line that is the marker), the
  parser gets the lines of the body with one LF between neighbours and without the
  whitespace around them.  When what is left does not both start and end with the
  marker, the parser gets it as it is, a single marker included.
\<close>

theorem strip_fences_reply:
  assumes "all_space w1" "all_space w2"
  shows "(prefix ''```'' first \<and> breaks_ok ((first, b0) # body)
          \<and> lf_joined (map fst body) = u @ inner @ v
          \<and> all_space u \<and> all_space v \<and> trimmed inner
          \<longrightarrow> strip_fences (w1 @ assemble ((first, b0) # body) @ ''```'' @ w2) = inner)
       \<and> (trimmed core \<and> \<not> (prefix ''```'' core \<and> suffix ''```'' core)
          \<longrightarrow> strip_fences (w1 @ core @ w2) = core)"
proof (intro conjI impI)
  assume h: "prefix ''```'' first \<and> breaks_ok ((first, b0) # body)
          \<and> lf_joined (map fst body) = u @ inner @ v
          \<and> all_space u \<and> all_space v \<and> trimmed inner"
  then have "strip (lf_joined (map fst body)) = inner"
    using strip_core[of u v inner] by simp
  then show "strip_fences (w1 @ assemble ((first, b0) # body) @ ''```'' @ w2) = inner"
    using fenced_core[of first b0 body w1 w2] h assms by simp
next
  assume h: "trimmed core \<and> \<not> (prefix ''```'' core \<and> suffix ''```'' core)"
  then have "strip (w1 @ core @ w2) = core" using assms by (intro strip_core) simp_all
  then show "strip_fences (w1 @ core @ w2) = core"
    using h by (auto simp: strip_fences_def Let_def startswith_def endswith_def)
qed

theorem strip_fences_reply_witness:
  "all_space ''  '' \<and> all_space ''\<newline>''
   \<and> prefix ''```'' ''```json''
   \<and> breaks_ok ((''```json'', [CHR 0x0D, CHR 0x0A]) # crlf_body)
   \<and> lf_joined (map fst crlf_body) = ''[1,\<newline> 2]''
   \<and> trimmed ''[1,\<newline> 2]''
   \<and> strip_fences crlf_fenced_reply = ''[1,\<newline> 2]''
   \<and> trimmed open_fence_core
   \<and> \<not> suffix ''```'' open_fence_core
   \<and> strip_fences (''  '' @ open_fence_core @ ''\<newline>'') = open_fence_core"
proof -
  have w: "all_space ''  ''" "all_space ''\<newline>''" "all_space []"
    by code_simp+
  have p: "prefix ''```'' ''```json''" by code_simp
  have ok: "breaks_ok ((''```json'', [CHR 0x0D, CHR 0x0A]) # crlf_body)"
    unfolding crlf_body_def by (simp add: no_linebreak_def is_break_def is_linebreak_def)
  have j: "lf_joined (map fst crlf_body) = [] @ ''[1,\<newline> 2]'' @ []" by code_simp
  have t: "trimmed ''[1,\<newline> 2]''" by code_simp
  have c: "trimmed open_fence_core" by code_simp
  have n: "\<not> suffix ''```'' open_fence_core" by code_simp
  note inst = strip_fences_reply[OF w(1,2), where first = "''```json''"
      and ?b0.0 = "[CHR 0x0D, CHR 0x0A]" and body = crlf_body and u = "[]"
      and inner = "''[1,\<newline> 2]''" and v = "[]" and core = open_fence_core]
  from inst p ok j t w(3)
  have a: "strip_fences crlf_fenced_reply = ''[1,\<newline> 2]''"
    unfolding crlf_fenced_reply_def by blast
  from inst c n
  have b: "strip_fences (''  '' @ open_fence_core @ ''\<newline>'') = open_fence_core"
    by blast
  from w(1,2) p ok j t a c n b show ?thesis by simp
qed

subsection \<open>A reply that is not JSON\<close>

lemma reply_of_content:
  "reply_of response_json = Some r \<Longrightarrow>
     no_valid_content response_json = Inr False
     \<and> message_content response_json = Inr (JStr r)"
  by (cases response_json)
     (auto simp: no_valid_content_def message_content_def
           split: option.splits json.splits list.splits)

lemma usage_counters_usage_of:
  "usage_counters response_json = Some u \<Longrightarrow> usage_of response_json = Inr u"
  by (cases response_json)
     (auto simp: usage_of_def zero_usage_def split: option.splits json.splits)

text \<open>
  C9, as stated, fails on a reply that is not JSON and on which \<open>json.loads\<close> raises
  something else than JSONDecodeError: on a thousand opening brackets it raises
  RecursionError, which \<open>except json.JSONDecodeError\<close> does not catch.  The block is
  left with the exception; neither the note nor the statistics are written.
\<close>

theorem parse_failure_deep_counterexample:
  "status_code deep_response = 200
   \<and> reply_of (case json_body deep_response of Inr j \<Rightarrow> j | Inl e \<Rightarrow> JNull) = Some deep_text
   \<and> strip_fences deep_text = deep_text
   \<and> loads_deep deep_text = Inl RecursionError
   \<and> handle_response loads_deep 2 100 deep_response io_init = (io_init, Inl RecursionError)"
proof -
  have s: "strip_fences deep_text = deep_text" by code_simp
  have "handle_response loads_deep 2 100 deep_response io_init = (io_init, Inl RecursionError)"
    by (simp add: handle_response_def handle_choices_def no_valid_content_def
        message_content_def parse_content_def deep_response_def s loads_deep_def)
  then show ?thesis by (simp add: s deep_response_def loads_deep_def)
qed

text \<open>
  The same when the response carries \<open>"usage": null\<close>: the note is written, the
  statistics are not.
\<close>

lemma parse_failure_null_usage:
  "handle_response rejecting_loads 2 100 null_usage_response io_init =
     (\<lparr>results_file = [[Lit ''The assistant response was not valid JSON.\<newline>'']],
       console = [[Lit ''The assistant response was not valid JSON even after removing code fences.'']]\<rparr>,
      Inl AttributeError)"
  by (simp add: handle_response_def handle_choices_def no_valid_content_def
      message_content_def parse_content_def null_usage_response_def rejecting_loads_def
      usage_of_def write_results_def print_line_def io_init_def)

text \<open>
  C9, amended: for a 200 response to a request with \<open>n\<close> images, at least one, of the
  expected shape (the reply a string at \<open>choices[0].message.content\<close>, \<open>usage\<close> absent
  or an object with the counters \<open>p\<close>, \<open>c\<close>, \<open>t\<close>) whose reply, after fence-stripping,
  makes \<open>json.loads\<close> raise JSONDecodeError: the block ends normally; it has written the
  parse-failure note and after it the lines of the performance and token statistics;
  and it has written no record.
\<close>

theorem parse_failure_recovered:
  assumes "status_code resp = 200"
    and "json_body resp = Inr response_json"
    and "reply_of response_json = Some r"
    and "usage_counters response_json = Some (p, c, t)"
    and "ld (strip_fences r) = Inl JSONDecodeError"
    and "0 < n"
  shows "handle_response ld n d resp s =
           (s\<lparr>results_file := results_file s @
                 [[Lit ''The assistant response was not valid JSON.\<newline>''],
                  [Lit ''\<newline>--- Performance & Design Statistics ---\<newline>''],
                  [Lit ''Number of images processed: '', Num (int n), Lit ''\<newline>''],
                  [Lit ''Total number of API calls: '', Num 1, Lit ''\<newline>''],
                  [Lit ''Total time for request: '', Fix2 d, Lit '' ms\<newline>''],
                  [Lit ''Average time per image: '', Fix2 (fl (d / of_nat n)), Lit '' ms\<newline>''],
                  [Lit ''\<newline>--- Usage / Token Statistics ---\<newline>''],
                  [Lit ''  Prompt tokens: '', Str p, Lit ''\<newline>''],
                  [Lit ''  Completion tokens: '', Str c, Lit ''\<newline>''],
                  [Lit ''  Total tokens used: '', Str t, Lit ''\<newline>'']],
               console := console s @
                 [[Lit ''The assistant response was not valid JSON even after removing code fences.'']]\<rparr>,
            Inr (p, c, t))
       \<and> filter is_record_line (results_file (fst (handle_response ld n d resp s)))
           = filter is_record_line (results_file s)"
proof -
  have h: "handle_choices ld response_json s =
     (print_line
        [Lit ''The assistant response was not valid JSON even after removing code fences.'']
        (write_results [Lit ''The assistant response was not valid JSON.\<newline>''] s), None)"
    using reply_of_content[OF assms(3)] assms(5)
    by (simp add: handle_choices_def parse_content_def)
  have eq: "handle_response ld n d resp s =
           (s\<lparr>results_file := results_file s @
                 [[Lit ''The assistant response was not valid JSON.\<newline>''],
                  [Lit ''\<newline>--- Performance & Design Statistics ---\<newline>''],
                  [Lit ''Number of images processed: '', Num (int n), Lit ''\<newline>''],
                  [Lit ''Total number of API calls: '', Num 1, Lit ''\<newline>''],
                  [Lit ''Total time for request: '', Fix2 d, Lit '' ms\<newline>''],
                  [Lit ''Average time per image: '', Fix2 (fl (d / of_nat n)), Lit '' ms\<newline>''],
                  [Lit ''\<newline>--- Usage / Token Statistics ---\<newline>''],
                  [Lit ''  Prompt tokens: '', Str p, Lit ''\<newline>''],
                  [Lit ''  Completion tokens: '', Str c, Lit ''\<newline>''],
                  [Lit ''  Total tokens used: '', Str t, Lit ''\<newline>'']],
               console := console s @
                 [[Lit ''The assistant response was not valid JSON even after removing code fences.'']]\<rparr>,
            Inr (p, c, t))"
    using assms(1,2) h usage_counters_usage_of[OF assms(4)]
    by (simp add: handle_response_def write_statistics_def print_line_def write_results_def
        performance_lines_def token_lines_def)
  show ?thesis unfolding eq by simp
qed

theorem parse_failure_recovered_witness:
  "status_code apology_response = 200
   \<and> json_body apology_response = Inr apology_json
   \<and> reply_of apology_json = Some ''Sorry, I cannot read these images.''
   \<and> usage_counters apology_json = Some (JInt 1200, JInt 9, JInt 0)
   \<and> rejecting_loads (strip_fences ''Sorry, I cannot read these images.'') = Inl JSONDecodeError
   \<and> (0::nat) < 2
   \<and> handle_response rejecting_loads 2 100 apology_response io_init =
       (\<lparr>results_file =
           [[Lit ''The assistant response was not valid JSON.\<newline>''],
            [Lit ''\<newline>--- Performance & Design Statistics ---\<newline>''],
            [Lit ''Number of images processed: '', Num 2, Lit ''\<newline>''],
            [Lit ''Total number of API calls: '', Num 1, Lit ''\<newline>''],
            [Lit ''Total time for request: '', Fix2 100, Lit '' ms\<newline>''],
            [Lit ''Average time per image: '', Fix2 50, Lit '' ms\<newline>''],
            [Lit ''\<newline>--- Usage / Token Statistics ---\<newline>''],
            [Lit ''  Prompt tokens: '', Str (JInt 1200), Lit ''\<newline>''],
            [Lit ''  Completion tokens: '', Str (JInt 9), Lit ''\<newline>''],
            [Lit ''  Total tokens used: '', Str (JInt 0), Lit ''\<newline>'']],
         console =
           [[Lit ''The assistant response was not valid JSON even after removing code fences.'']]\<rparr>,
        Inr (JInt 1200, JInt 9, JInt 0))"
proof -
  have a: "status_code apology_response = 200" by (simp add: apology_response_def)
  have b: "json_body apology_response = Inr apology_json"
    by (simp add: apology_json_def apology_response_def)
  have c: "reply_of apology_json = Some ''Sorry, I cannot read these images.''"
    by (simp add: apology_json_def apology_response_def)
  have d: "usage_counters apology_json = Some (JInt 1200, JInt 9, JInt 0)"
    by (simp add: apology_json_def apology_response_def)
  have e: "rejecting_loads (strip_fences ''Sorry, I cannot read these images.'')
             = Inl JSONDecodeError"
    by (simp add: rejecting_loads_def)
  have f: "fl (100 / of_nat 2) = 50"
    using fl_of_nat[of 50] by simp
  have g: "(0::nat) < 2" by simp
  from parse_failure_recovered[where ld = rejecting_loads and n = 2 and d = 100
        and s = io_init, OF a b c d e g]
  have res: "handle_response rejecting_loads 2 100 apology_response io_init =
       (\<lparr>results_file =
           [[Lit ''The assistant response was not valid JSON.\<newline>''],
            [Lit ''\<newline>--- Performance & Design Statistics ---\<newline>''],
            [Lit ''Number of images processed: '', Num 2, Lit ''\<newline>''],
            [Lit ''Total number of API calls: '', Num 1, Lit ''\<newline>''],
            [Lit ''Total time for request: '', Fix2 100, Lit '' ms\<newline>''],
            [Lit ''Average time per image: '', Fix2 50, Lit '' ms\<newline>''],
            [Lit ''\<newline>--- Usage / Token Statistics ---\<newline>''],
            [Lit ''  Prompt tokens: '', Str (JInt 1200), Lit ''\<newline>''],
            [Lit ''  Completion tokens: '', Str (JInt 9), Lit ''\<newline>''],
            [Lit ''  Total tokens used: '', Str (JInt 0), Lit ''\<newline>'']],
         console =
           [[Lit ''The assistant response was not valid JSON even after removing code fences.'']]\<rparr>,
        Inr (JInt 1200, JInt 9, JInt 0))"
    using f by (simp add: io_init_def)
  from a b c d e g res show ?thesis by blast
qed

text \<open>
  The same for the whole run: it ends without exception, and the results file holds the
  note and the statistics.
\<close>

lemma extractor_parse_failure:
  assumes "fireworks_api_key w = Some key" "fireworks_endpoint w = Some url"
    and "key \<noteq> []" "url \<noteq> []"
    and "image_files (env_listing w) \<noteq> []"
    and "env_post w url (build_headers key)
           (build_payload (fireworks_model w)
              (batch_content (env_read_b64 w) (env_listing w))) = Inr resp"
    and "status_code resp = 200"
    and "json_body resp = Inr response_json"
    and "reply_of response_json = Some r"
    and "usage_counters response_json = Some u"
    and "env_loads w (strip_fences r) = Inl JSONDecodeError"
  shows "snd (extractor w) = Inr u"
    and "results_file (fst (extractor w)) =
           [[Lit ''The assistant response was not valid JSON.\<newline>''],
            [Lit ''\<newline>--- Performance & Design Statistics ---\<newline>'']]
           @ performance_lines (length (image_files (env_listing w))) (env_duration_ms w)
           @ [[Lit ''\<newline>--- Usage / Token Statistics ---\<newline>'']]
           @ token_lines u"
proof -
  let ?n = "length (image_files (env_listing w))"
  let ?s0 = "print_line [Lit ''Loaded Model: '', Env (fireworks_model w)]
               (print_line [Lit ''Loaded Endpoint: '', Env (fireworks_endpoint w)] io_init)"
  have h: "handle_choices (env_loads w) response_json ?s0 =
     (print_line
        [Lit ''The assistant response was not valid JSON even after removing code fences.'']
        (write_results [Lit ''The assistant response was not valid JSON.\<newline>''] ?s0), None)"
    using reply_of_content[OF assms(9)] assms(11)
    by (simp add: handle_choices_def parse_content_def)
  have r: "handle_response (env_loads w) ?n (env_duration_ms w) resp ?s0 =
     (write_statistics ?n (env_duration_ms w) u
        (print_line
           [Lit ''The assistant response was not valid JSON even after removing code fences.'']
           (write_results [Lit ''The assistant response was not valid JSON.\<newline>''] ?s0)),
      Inr u)"
    using assms(7,8) h usage_counters_usage_of[OF assms(10)]
    by (simp add: handle_response_def)
  have e: "extractor w =
     (print_statistics ?n (env_duration_ms w) u
        (write_statistics ?n (env_duration_ms w) u
           (print_line
              [Lit ''The assistant response was not valid JSON even after removing code fences.'']
              (write_results [Lit ''The assistant response was not valid JSON.\<newline>''] ?s0))),
      Inr u)"
    using assms(1-6) r by (simp add: extractor_def Let_def)
  show "snd (extractor w) = Inr u" by (simp add: e)
  show "results_file (fst (extractor w)) =
           [[Lit ''The assistant response was not valid JSON.\<newline>''],
            [Lit ''\<newline>--- Performance & Design Statistics ---\<newline>'']]
           @ performance_lines ?n (env_duration_ms w)
           @ [[Lit ''\<newline>--- Usage / Token Statistics ---\<newline>'']]
           @ token_lines u"
    by (cases u)
       (simp add: e print_statistics_def write_statistics_def print_line_def
          write_results_def io_init_def)
qed

section \<open>Which files are selected\<close>

lemma is_image_name_suffix:
  "is_image_name f \<longleftrightarrow>
     suffix ''png'' (lower f) \<or> suffix ''jpg'' (lower f) \<or> suffix ''jpeg'' (lower f)"
  by (simp add: is_image_name_def endswith_any_def endswith_def)

lemma is_image_name_scanpng: "is_image_name ''scanpng''"
  by code_simp

lemma main_loop_selected_only:
  "\<forall>f \<in> set fs. other (path_join ''images'' f) = imread lib (path_join ''images'' f)
                \<and> getsize2 (path_join ''images'' f) = getsize (path_join ''images'' f) \<Longrightarrow>
     main_loop (lib\<lparr>imread := other\<rparr>) getsize2 fs t = main_loop lib getsize fs t"
proof (induction fs arbitrary: t)
  case Nil
  then show ?case by simp
next
  case (Cons f fs)
  have "preprocess_image (lib\<lparr>imread := other\<rparr>) (path_join ''images'' f) (offset_for f)
      = preprocess_image lib (path_join ''images'' f) (offset_for f)"
    using Cons.prems
    by (simp add: preprocess_image_def resize_image_def cv2_resize_def cvtColor_def Let_def
        split: option.splits)
  then show ?case using Cons by (simp add: Let_def split: sum.splits prod.splits)
qed

lemma main_loop_paths:
  "main_loop lib getsize fs t = (t', r) \<Longrightarrow>
     set (paths_read t') \<subseteq> set (paths_read t) \<union> path_join ''images'' ` set fs"
proof (induction fs arbitrary: t)
  case Nil
  then show ?case by auto
next
  case (Cons f fs)
  show ?case
  proof (cases "preprocess_image lib (path_join ''images'' f) (offset_for f)")
    case (Inl e)
    with Cons.prems show ?thesis by (auto simp: Let_def)
  next
    case (Inr p)
    obtain b n where p: "p = (b, n)" by (cases p)
    from Cons.prems Inr p Cons.IH[of _] show ?thesis
      by (fastforce simp: Let_def)
  qed
qed

lemma main_paths:
  "set (paths_read (fst (main lib getsize ls)))
     \<subseteq> path_join ''images'' ` {f \<in> set ls. is_image_name f}"
proof (cases "all_images ls = []")
  case True
  then show ?thesis by (simp add: main_def totals_init_def)
next
  case False
  obtain t r where m: "main_loop lib getsize (all_images ls) totals_init = (t, r)"
    by (cases "main_loop lib getsize (all_images ls) totals_init")
  from main_loop_paths[OF m] have "set (paths_read t) \<subseteq> path_join ''images'' ` set (all_images ls)"
    by (simp add: totals_init_def)
  then show ?thesis using False m by (simp add: main_def all_images_def)
qed

lemma add_images_read_only:
  "\<forall>f \<in> set fs. rd2 (path_join ''preprocessed_images'' f)
                  = rd1 (path_join ''preprocessed_images'' f) \<Longrightarrow>
     add_images rd2 fs acc = add_images rd1 fs acc"
  by (induction fs arbitrary: acc) (simp_all add: image_block_def)

text \<open>
  C10: both scripts keep a directory entry exactly when its lower-cased name ends with
  \<open>png\<close>, \<open>jpg\<close> or \<open>jpeg\<close>, no dot required, so \<open>scanpng\<close> is kept.  Every other entry is
  ignored: the Preprocessor passes to \<open>getsize\<close> and \<open>imread\<close> only paths of kept entries,
  and its run is the same whatever \<open>imread\<close> and \<open>getsize\<close> would answer for the other
  entries (an undecodable one among them changes nothing); the Extractor's request is
  the same whatever the other entries contain.
\<close>

theorem selection_by_suffix:
  "is_image_name ''scanpng''
   \<and> (is_image_name f \<longleftrightarrow>
        suffix ''png'' (lower f) \<or> suffix ''jpg'' (lower f) \<or> suffix ''jpeg'' (lower f))
   \<and> set (all_images ls) = {f \<in> set ls. is_image_name f}
   \<and> set (image_files ls) = {f \<in> set ls. is_image_name f}
   \<and> set (paths_read (fst (main lib getsize ls)))
        \<subseteq> path_join ''images'' ` {f \<in> set ls. is_image_name f}
   \<and> ((\<forall>f \<in> set ls. is_image_name f \<longrightarrow>
          other (path_join ''images'' f) = imread lib (path_join ''images'' f)
          \<and> getsize2 (path_join ''images'' f) = getsize (path_join ''images'' f))
       \<longrightarrow> main (lib\<lparr>imread := other\<rparr>) getsize2 ls = main lib getsize ls)
   \<and> ((\<forall>f \<in> set ls. is_image_name f \<longrightarrow>
          rd2 (path_join ''preprocessed_images'' f) = rd1 (path_join ''preprocessed_images'' f))
       \<longrightarrow> batch_content rd2 ls = batch_content rd1 ls)"
proof (intro conjI impI)
  show "is_image_name ''scanpng''" by (rule is_image_name_scanpng)
  show "is_image_name f \<longleftrightarrow>
        suffix ''png'' (lower f) \<or> suffix ''jpg'' (lower f) \<or> suffix ''jpeg'' (lower f)"
    by (rule is_image_name_suffix)
  show "set (all_images ls) = {f \<in> set ls. is_image_name f}"
    by (auto simp: all_images_def)
  show "set (image_files ls) = {f \<in> set ls. is_image_name f}"
    by (auto simp: image_files_def)
  show "set (paths_read (fst (main lib getsize ls)))
        \<subseteq> path_join ''images'' ` {f \<in> set ls. is_image_name f}"
    by (rule main_paths)
next
  assume "\<forall>f \<in> set ls. is_image_name f \<longrightarrow>
          other (path_join ''images'' f) = imread lib (path_join ''images'' f)
          \<and> getsize2 (path_join ''images'' f) = getsize (path_join ''images'' f)"
  then have "\<forall>f \<in> set (all_images ls).
          other (path_join ''images'' f) = imread lib (path_join ''images'' f)
          \<and> getsize2 (path_join ''images'' f) = getsize (path_join ''images'' f)"
    by (simp add: all_images_def)
  then show "main (lib\<lparr>imread := other\<rparr>) getsize2 ls = main lib getsize ls"
    by (simp add: main_def main_loop_selected_only)
next
  assume "\<forall>f \<in> set ls. is_image_name f \<longrightarrow>
          rd2 (path_join ''preprocessed_images'' f) = rd1 (path_join ''preprocessed_images'' f)"
  then have "\<forall>f \<in> set (image_files ls).
          rd2 (path_join ''preprocessed_images'' f) = rd1 (path_join ''preprocessed_images'' f)"
    by (simp add: image_files_def)
  then show "batch_content rd2 ls = batch_content rd1 ls"
    by (simp add: batch_content_def add_images_read_only)
qed

theorem selection_by_suffix_witness:
  "notes_undecodable ''images/notes.txt'' = None
   \<and> imread two_images_lib ''images/notes.txt'' \<noteq> None
   \<and> notes_size_differs ''images/notes.txt'' \<noteq> two_images_getsize ''images/notes.txt''
   \<and> main (two_images_lib\<lparr>imread := notes_undecodable\<rparr>) notes_size_differs mixed_listing
       = main two_images_lib two_images_getsize mixed_listing
   \<and> read_name_but_notes ''preprocessed_images/notes.txt''
       \<noteq> read_name ''preprocessed_images/notes.txt''
   \<and> batch_content read_name_but_notes mixed_listing = batch_content read_name mixed_listing
   \<and> all_images mixed_listing = [''b.JPG'', ''scanpng'']
   \<and> \<not> is_image_name ''notes.txt''"
proof -
  have h1: "\<forall>f \<in> set mixed_listing. is_image_name f \<longrightarrow>
      notes_undecodable (path_join ''images'' f) = imread two_images_lib (path_join ''images'' f)
      \<and> notes_size_differs (path_join ''images'' f) = two_images_getsize (path_join ''images'' f)"
    by code_simp
  have h2: "\<forall>f \<in> set mixed_listing. is_image_name f \<longrightarrow>
        read_name_but_notes (path_join ''preprocessed_images'' f)
        = read_name (path_join ''preprocessed_images'' f)"
    by code_simp
  have a: "all_images mixed_listing = [''b.JPG'', ''scanpng'']" by code_simp
  have n: "\<not> is_image_name ''notes.txt''" by code_simp
  have d1: "notes_undecodable ''images/notes.txt'' = None" by code_simp
  have d2: "imread two_images_lib ''images/notes.txt'' \<noteq> None" by code_simp
  have d3: "notes_size_differs ''images/notes.txt'' \<noteq> two_images_getsize ''images/notes.txt''"
    by code_simp
  have d4: "read_name_but_notes ''preprocessed_images/notes.txt''
             \<noteq> read_name ''preprocessed_images/notes.txt''"
    by code_simp
  note inst = selection_by_suffix[where f = "''notes.txt''" and ls = mixed_listing
      and lib = two_images_lib and getsize = two_images_getsize
      and other = notes_undecodable and ?getsize2.0 = notes_size_differs
      and ?rd2.0 = read_name_but_notes and ?rd1.0 = read_name]
  from inst h1
  have m: "main (two_images_lib\<lparr>imread := notes_undecodable\<rparr>) notes_size_differs mixed_listing
       = main two_images_lib two_images_getsize mixed_listing"
    by blast
  from inst h2
  have b: "batch_content read_name_but_notes mixed_listing = batch_content read_name mixed_listing"
    by blast
  from d1 d2 d3 m d4 b a n show ?thesis by blast
qed

end
